theory Spec2Isabelle
  imports Main "HOL-Library.Word"
begin

unbundle bit_operations_syntax

section \<open>dhcpcd: the DHCPv4 option codec and state machine of dhcp.c\<close>

type_synonym u8 = "8 word"
type_synonym u32 = "32 word"

subsection \<open>The option table\<close>

text \<open>
  Modelled from the spec: the option type tags of dhcp-common.h are not part of dhcp.c.
  The spec lists them as bit flags; each is a distinct single bit, so a type word is
  modelled as the list of the flags or-ed together (\<open>[]\<close> is the type 0), and the test
  \<^verbatim>\<open>opt->type & F\<close> as membership of \<open>F\<close>.
\<close>

datatype opt_flag =
  REQUEST | UINT8 | UINT16 | SINT16 | UINT32 | ADDRIPV4 | STRING | ARRAY
  | RFC3361 | RFC3397 | RFC3442 | RFC5969

type_synonym opt_type = "opt_flag list"

definition has_flag :: "opt_type \<Rightarrow> opt_flag list \<Rightarrow> bool" where
  \<comment> \<open>\<^verbatim>\<open>type & (F1 | F2 | ...)\<close> is non-zero\<close>
  "has_flag t fs = (\<exists>f \<in> set fs. f \<in> set t)"

record dhcp_opt =
  option :: u8
  type :: opt_type
  var :: string

definition mk_opt :: "u8 \<Rightarrow> opt_type \<Rightarrow> string \<Rightarrow> dhcp_opt" where
  "mk_opt c t v = \<lparr>option = c, type = t, var = v\<rparr>"

definition IPV4A :: opt_type where
  "IPV4A = [ADDRIPV4, ARRAY]"

definition dhcp_opts :: "dhcp_opt list" where
  "dhcp_opts = [
    mk_opt 1 [ADDRIPV4, REQUEST] ''subnet_mask'',
    mk_opt 121 [RFC3442] ''classless_static_routes'',
    mk_opt 249 [RFC3442] ''ms_classless_static_routes'',
    mk_opt 33 (IPV4A @ [REQUEST]) ''static_routes'',
    mk_opt 3 (IPV4A @ [REQUEST]) ''routers'',
    mk_opt 2 [UINT32] ''time_offset'',
    mk_opt 4 IPV4A ''time_servers'',
    mk_opt 5 IPV4A ''ien116_name_servers'',
    mk_opt 6 IPV4A ''domain_name_servers'',
    mk_opt 7 IPV4A ''log_servers'',
    mk_opt 8 IPV4A ''cookie_servers'',
    mk_opt 9 IPV4A ''lpr_servers'',
    mk_opt 10 IPV4A ''impress_servers'',
    mk_opt 11 IPV4A ''resource_location_servers'',
    mk_opt 12 [STRING] ''host_name'',
    mk_opt 13 [UINT16] ''boot_size'',
    mk_opt 14 [STRING] ''merit_dump'',
    mk_opt 15 [STRING] ''domain_name'',
    mk_opt 16 [ADDRIPV4] ''swap_server'',
    mk_opt 17 [STRING] ''root_path'',
    mk_opt 18 [STRING] ''extensions_path'',
    mk_opt 19 [UINT8] ''ip_forwarding'',
    mk_opt 20 [UINT8] ''non_local_source_routing'',
    mk_opt 21 IPV4A ''policy_filter'',
    mk_opt 22 [SINT16] ''max_dgram_reassembly'',
    mk_opt 23 [UINT16] ''default_ip_ttl'',
    mk_opt 24 [UINT32] ''path_mtu_aging_timeout'',
    mk_opt 25 [UINT16, ARRAY] ''path_mtu_plateau_table'',
    mk_opt 26 [UINT16] ''interface_mtu'',
    mk_opt 27 [UINT8] ''all_subnets_local'',
    mk_opt 28 [ADDRIPV4, REQUEST] ''broadcast_address'',
    mk_opt 29 [UINT8] ''perform_mask_discovery'',
    mk_opt 30 [UINT8] ''mask_supplier'',
    mk_opt 31 [UINT8] ''router_discovery'',
    mk_opt 32 [ADDRIPV4] ''router_solicitation_address'',
    mk_opt 34 [UINT8] ''trailer_encapsulation'',
    mk_opt 35 [UINT32] ''arp_cache_timeout'',
    mk_opt 36 [UINT16] ''ieee802_3_encapsulation'',
    mk_opt 37 [UINT8] ''default_tcp_ttl'',
    mk_opt 38 [UINT32] ''tcp_keepalive_interval'',
    mk_opt 39 [UINT8] ''tcp_keepalive_garbage'',
    mk_opt 40 [STRING] ''nis_domain'',
    mk_opt 41 IPV4A ''nis_servers'',
    mk_opt 42 IPV4A ''ntp_servers'',
    mk_opt 43 [STRING] ''vendor_encapsulated_options'',
    mk_opt 44 IPV4A ''netbios_name_servers'',
    mk_opt 45 [ADDRIPV4] ''netbios_dd_server'',
    mk_opt 46 [UINT8] ''netbios_node_type'',
    mk_opt 47 [STRING] ''netbios_scope'',
    mk_opt 48 IPV4A ''font_servers'',
    mk_opt 49 IPV4A ''x_display_manager'',
    mk_opt 50 [ADDRIPV4] ''dhcp_requested_address'',
    mk_opt 51 [UINT32, REQUEST] ''dhcp_lease_time'',
    mk_opt 52 [UINT8] ''dhcp_option_overload'',
    mk_opt 53 [UINT8] ''dhcp_message_type'',
    mk_opt 54 [ADDRIPV4] ''dhcp_server_identifier'',
    mk_opt 55 [UINT8, ARRAY] ''dhcp_parameter_request_list'',
    mk_opt 56 [STRING] ''dhcp_message'',
    mk_opt 57 [UINT16] ''dhcp_max_message_size'',
    mk_opt 58 [UINT32, REQUEST] ''dhcp_renewal_time'',
    mk_opt 59 [UINT32, REQUEST] ''dhcp_rebinding_time'',
    mk_opt 64 [STRING] ''nisplus_domain'',
    mk_opt 65 IPV4A ''nisplus_servers'',
    mk_opt 66 [STRING] ''tftp_server_name'',
    mk_opt 67 [STRING] ''bootfile_name'',
    mk_opt 68 IPV4A ''mobile_ip_home_agent'',
    mk_opt 69 IPV4A ''smtp_server'',
    mk_opt 70 IPV4A ''pop_server'',
    mk_opt 71 IPV4A ''nntp_server'',
    mk_opt 72 IPV4A ''www_server'',
    mk_opt 73 IPV4A ''finger_server'',
    mk_opt 74 IPV4A ''irc_server'',
    mk_opt 75 IPV4A ''streettalk_server'',
    mk_opt 76 IPV4A ''streettalk_directory_assistance_server'',
    mk_opt 77 [STRING] ''user_class'',
    mk_opt 81 [STRING, RFC3397] ''fqdn_name'',
    mk_opt 85 IPV4A ''nds_servers'',
    mk_opt 86 [STRING] ''nds_tree_name'',
    mk_opt 87 [STRING] ''nds_context'',
    mk_opt 88 [STRING, RFC3397] ''bcms_controller_names'',
    mk_opt 89 IPV4A ''bcms_controller_address'',
    mk_opt 91 [UINT32] ''client_last_transaction_time'',
    mk_opt 92 IPV4A ''associated_ip'',
    mk_opt 98 [STRING] ''uap_servers'',
    mk_opt 112 IPV4A ''netinfo_server_address'',
    mk_opt 113 [STRING] ''netinfo_server_tag'',
    mk_opt 114 [STRING] ''default_url'',
    mk_opt 118 [ADDRIPV4] ''subnet_selection'',
    mk_opt 119 [STRING, RFC3397] ''domain_search'',
    mk_opt 120 [STRING, RFC3361] ''sip_server'',
    mk_opt 212 [RFC5969] ''sixrd'',
    mk_opt 0 [] ''''
  ]"

subsection \<open>validate_length\<close>

text \<open>
  The body of the table loop of \<^verbatim>\<open>validate_length\<close> for the entry whose code matched:
  the returned length, \<open>-1\<close> for an invalid one. \<^verbatim>\<open>sizeof(uint32_t)\<close>, \<^verbatim>\<open>sizeof(uint16_t)\<close>
  and \<^verbatim>\<open>sizeof(uint8_t)\<close> are 4, 2 and 1. The out-parameter \<^verbatim>\<open>type\<close> is not modelled.
\<close>

definition validate_entry :: "opt_type \<Rightarrow> int \<Rightarrow> int" where
  "validate_entry t dl =
     (if t = [] \<or> has_flag t [STRING, RFC3442, RFC5969] then dl
      else if has_flag t [ADDRIPV4] \<and> has_flag t [ARRAY] then
        (if dl < 4 then - 1 else dl - (dl mod 4))
      else
        (let sz = (0 :: int);
             sz = (if has_flag t [UINT32, ADDRIPV4] then 4 else sz);
             sz = (if has_flag t [UINT16] then 2 else sz);
             sz = (if has_flag t [UINT8] then 1 else sz)
         in if sz = 0 then dl else (if dl < sz then - 1 else sz)))"

text \<open>
  The loop \<^verbatim>\<open>for (opt = dhcp_opts; opt->option; opt++)\<close>: it stops at the entry with
  code 0, skips the entries of another code and returns from the first entry of the code.
\<close>

fun validate_loop :: "dhcp_opt list \<Rightarrow> u8 \<Rightarrow> int \<Rightarrow> int" where
  "validate_loop [] opt dl = dl"
| "validate_loop (e # es) opt dl =
     (if option e = 0 then dl
      else if option e \<noteq> opt then validate_loop es opt dl
      else validate_entry (type e) dl)"

definition validate_length :: "u8 \<Rightarrow> int \<Rightarrow> int" where
  "validate_length opt dl = (if dl = 0 then - 1 else validate_loop dhcp_opts opt dl)"

text \<open>
  The type the table gives a code: that of the first entry of the code before the
  terminating entry, \<open>None\<close> for a code the table does not have.
\<close>

fun opt_lookup :: "dhcp_opt list \<Rightarrow> u8 \<Rightarrow> opt_type option" where
  "opt_lookup [] c = None"
| "opt_lookup (e # es) c =
     (if option e = 0 then None
      else if option e = c then Some (type e) else opt_lookup es c)"

definition option_type :: "u8 \<Rightarrow> opt_type option" where
  "option_type c = opt_lookup dhcp_opts c"

text \<open>
  The types the length rules are stated for, read off the flags without the REQUEST
  meta flag: an array of IPv4 addresses, and a scalar of 32, 16 or 8 bits with its
  width in octets.
\<close>

definition is_ipv4_array :: "opt_type \<Rightarrow> bool" where
  "is_ipv4_array t = (set t - {REQUEST} = {ADDRIPV4, ARRAY})"

definition scalar_width :: "opt_type \<Rightarrow> int option" where
  "scalar_width t =
     (if set t - {REQUEST} = {UINT32} then Some 4
      else if set t - {REQUEST} = {UINT16} then Some 2
      else if set t - {REQUEST} = {UINT8} then Some 1
      else None)"

subsection \<open>The message\<close>

text \<open>
  Modelled from the spec: \<^verbatim>\<open>struct dhcp_message\<close> is declared in dhcp.h, which is not part
  of dhcp.c. The message is modelled as the octets of the struct, in the order of the
  spec's table of fields: op, hwtype, hwlen and hops (one octet each), xid (4), secs (2),
  flags (2), ciaddr, yiaddr, siaddr and giaddr (4 each), chaddr (16), servername (64),
  bootfile (128), cookie (4), then the options area, which is the rest of the struct;
  \<^verbatim>\<open>sizeof(*dhcp)\<close> is the length of the list. A pointer into the message is the offset
  of the octet it points at. The option codes and message types are those of RFC 2132.
\<close>

type_synonym dhcp_message = "u8 list"

definition XID_OFF :: nat where "XID_OFF = 4"
definition CIADDR_OFF :: nat where "CIADDR_OFF = 12"
definition YIADDR_OFF :: nat where "YIADDR_OFF = 16"
definition CHADDR_OFF :: nat where "CHADDR_OFF = 28"
definition CHADDR_LEN :: nat where "CHADDR_LEN = 16"
definition SERVERNAME_OFF :: nat where "SERVERNAME_OFF = 44"
definition SERVERNAME_LEN :: nat where "SERVERNAME_LEN = 64"
definition BOOTFILE_OFF :: nat where "BOOTFILE_OFF = 108"
definition BOOTFILE_LEN :: nat where "BOOTFILE_LEN = 128"
definition COOKIE_OFF :: nat where "COOKIE_OFF = 236"
definition OPTIONS_OFF :: nat where "OPTIONS_OFF = 240"

definition DHO_PAD :: u8 where "DHO_PAD = 0"
definition DHO_SUBNETMASK :: u8 where "DHO_SUBNETMASK = 1"
definition DHO_BROADCAST :: u8 where "DHO_BROADCAST = 28"
definition DHO_LEASETIME :: u8 where "DHO_LEASETIME = 51"
definition DHO_OPTIONSOVERLOADED :: u8 where "DHO_OPTIONSOVERLOADED = 52"
definition DHO_MESSAGETYPE :: u8 where "DHO_MESSAGETYPE = 53"
definition DHO_SERVERID :: u8 where "DHO_SERVERID = 54"
definition DHO_RENEWALTIME :: u8 where "DHO_RENEWALTIME = 58"
definition DHO_REBINDTIME :: u8 where "DHO_REBINDTIME = 59"
definition DHO_END :: u8 where "DHO_END = 255"

definition DHCP_OFFER :: u8 where "DHCP_OFFER = 2"
definition DHCP_ACK :: u8 where "DHCP_ACK = 5"
definition DHCP_NAK :: u8 where "DHCP_NAK = 6"

definition MAGIC_COOKIE :: u32 where "MAGIC_COOKIE = 0x63825363"

text \<open>
  Reading the octet at an offset: \<open>None\<close> when the offset is outside of the message,
  where the C code reads memory that is not the message's.
\<close>

definition rd :: "dhcp_message \<Rightarrow> nat \<Rightarrow> u8 option" where
  "rd m i = (if i < length m then Some (m ! i) else None)"

definition field :: "dhcp_message \<Rightarrow> nat \<Rightarrow> nat \<Rightarrow> u8 list" where
  "field m off n = take n (drop off m)"

text \<open>The 32-bit word of four octets in network byte order (\<^verbatim>\<open>ntohl\<close> of the field).\<close>

definition be32 :: "u8 list \<Rightarrow> u32" where
  "be32 bs = foldl (\<lambda>w b. push_bit 8 w OR ucast b) 0 bs"

definition options_area :: "dhcp_message \<Rightarrow> u8 list" where
  "options_area m = drop OPTIONS_OFF m"

subsection \<open>get_option\<close>

datatype errno = EINVAL | ENOENT

text \<open>
  The outcome of a function that reads the message: \<open>Overrun\<close> when it reads or writes
  outside of the message or of the option buffer (C leaves this undefined), \<open>Fail\<close> with
  the \<^verbatim>\<open>errno\<close> it sets when it returns its failure value, \<open>Ok\<close> with its result.
\<close>

datatype 'a res = Overrun | Fail errno | Ok 'a

text \<open>
  The pointer \<^verbatim>\<open>get_option\<close> returns: into the message, or \<^verbatim>\<open>opt_buffer\<close>, given with the
  octets written to it from its start (the buffer has \<^verbatim>\<open>sizeof(*dhcp)\<close> octets).
\<close>

datatype ptr = Msg nat | Buf "u8 list"

text \<open>
  The variables of the loop of \<^verbatim>\<open>get_option\<close>: \<open>s_p\<close> and \<open>s_e\<close> are \<^verbatim>\<open>p\<close> and \<^verbatim>\<open>e\<close>, \<open>s_op\<close>
  is \<^verbatim>\<open>op\<close> (\<open>None\<close> for NULL), \<open>s_bp\<close> is \<open>None\<close> while \<^verbatim>\<open>bp\<close> is NULL and then the octets
  between the start of \<^verbatim>\<open>opt_buffer\<close> and \<^verbatim>\<open>bp\<close>.
\<close>

record scan =
  s_p :: nat
  s_e :: nat
  s_overl :: u8
  s_op :: "nat option"
  s_ol :: u8
  s_bp :: "u8 list option"
  s_bl :: int

text \<open>
  \<^verbatim>\<open>memcpy(bp, op, ol); bp += ol\<close>, with \<^verbatim>\<open>bp = opt_buffer\<close> first when \<^verbatim>\<open>bp\<close> is NULL:
  \<open>None\<close> when the octets copied are not all in the message or do not fit the buffer.
\<close>

definition copy_segment :: "dhcp_message \<Rightarrow> scan \<Rightarrow> nat \<Rightarrow> u8 list option" where
  "copy_segment m s a =
     (let buf = (case s_bp s of None \<Rightarrow> [] | Some b \<Rightarrow> b);
          n = unat (s_ol s)
      in if a + n \<le> length m \<and> length buf + n \<le> length m
         then Some (buf @ take n (drop a m)) else None)"

text \<open>The block \<^verbatim>\<open>if (o == opt) { ... }\<close>, entered after \<^verbatim>\<open>o = *p++\<close>.\<close>

definition collect :: "dhcp_message \<Rightarrow> scan \<Rightarrow> scan option" where
  "collect m s =
     (case (case s_op s of
              None \<Rightarrow> Some (s_bp s)
            | Some a \<Rightarrow> map_option Some (copy_segment m s a)) of
        None \<Rightarrow> None
      | Some b \<Rightarrow>
          (case rd m (s_p s) of
             None \<Rightarrow> None
           | Some l \<Rightarrow>
               Some (s\<lparr>s_bp := b, s_ol := l, s_op := Some (s_p s + 1),
                       s_bl := s_bl s + uint l\<rparr>)))"

datatype step = Fault | Exit scan | Next scan

text \<open>The end of the loop body: \<^verbatim>\<open>l = *p++; p += l;\<close>\<close>

definition skip :: "dhcp_message \<Rightarrow> scan \<Rightarrow> step" where
  "skip m s =
     (case rd m (s_p s) of
        None \<Rightarrow> Fault
      | Some l \<Rightarrow> Next (s\<lparr>s_p := s_p s + 1 + unat l\<rparr>))"

text \<open>
  The \<^verbatim>\<open>switch (o)\<close> and the end of the loop body. In the case DHO_END the \<^verbatim>\<open>break\<close>
  leaves the \<^verbatim>\<open>switch\<close> only, so that after \<^verbatim>\<open>p\<close> is set to the start of the bootfile
  or servername field the round ends with \<^verbatim>\<open>l = *p++; p += l;\<close> as for every other
  option.
\<close>

definition scan_switch :: "dhcp_message \<Rightarrow> u8 \<Rightarrow> scan \<Rightarrow> step" where
  "scan_switch m o' s =
     (if o' = DHO_PAD then Next s
      else if o' = DHO_END then
        (if s_overl s AND 1 \<noteq> 0 then
           skip m (s\<lparr>s_overl := s_overl s AND NOT 1, s_p := BOOTFILE_OFF,
                     s_e := BOOTFILE_OFF + BOOTFILE_LEN\<rparr>)
         else if s_overl s AND 2 \<noteq> 0 then
           skip m (s\<lparr>s_overl := s_overl s AND NOT 2, s_p := SERVERNAME_OFF,
                     s_e := SERVERNAME_OFF + SERVERNAME_LEN\<rparr>)
         else Exit s)
      else if o' = DHO_OPTIONSOVERLOADED then
        (if s_overl s = 0 then
           (case rd m (s_p s + 1) of
              None \<Rightarrow> Fault
            | Some v \<Rightarrow> skip m (s\<lparr>s_overl := v\<rparr>))
         else skip m s)
      else skip m s)"

text \<open>One round of the loop \<^verbatim>\<open>while (p < e)\<close>, from \<^verbatim>\<open>o = *p++\<close>.\<close>

definition scan_step :: "dhcp_message \<Rightarrow> u8 \<Rightarrow> scan \<Rightarrow> step" where
  "scan_step m opt s =
     (case rd m (s_p s) of
        None \<Rightarrow> Fault
      | Some o' \<Rightarrow>
          (case (if o' = opt then collect m (s\<lparr>s_p := s_p s + 1\<rparr>)
                 else Some (s\<lparr>s_p := s_p s + 1\<rparr>)) of
             None \<Rightarrow> Fault
           | Some s2 \<Rightarrow> scan_switch m o' s2))"

text \<open>
  The loop. It need not end on every message, so it is a partial function: \<open>None\<close> when the loop does not end, \<open>Some None\<close> when it leaves the message,
  \<open>Some (Some s)\<close> with the variables at the label \<^verbatim>\<open>exit\<close>.
\<close>

partial_function (option) scan_loop :: "dhcp_message \<Rightarrow> u8 \<Rightarrow> scan \<Rightarrow> scan option option"
where
  "scan_loop m opt s =
     (if s_p s < s_e s then
        (case scan_step m opt s of
           Fault \<Rightarrow> Some None
         | Exit s' \<Rightarrow> Some (Some s')
         | Next s' \<Rightarrow> scan_loop m opt s')
      else Some (Some s))"

declare scan_loop.simps [code]

definition scan_init :: "dhcp_message \<Rightarrow> scan" where
  "scan_init m =
     \<lparr>s_p = OPTIONS_OFF, s_e = OPTIONS_OFF + (length m - OPTIONS_OFF), s_overl = 0,
      s_op = None, s_ol = 0, s_bp = None, s_bl = 0\<rparr>"

text \<open>
  The code after the label \<^verbatim>\<open>exit\<close>: the pointer returned and the length stored in
  \<^verbatim>\<open>*len\<close>.
\<close>

definition get_option_exit :: "dhcp_message \<Rightarrow> u8 \<Rightarrow> scan \<Rightarrow> (ptr \<times> int) res" where
  "get_option_exit m opt s =
     (let bl = validate_length opt (s_bl s)
      in if bl = - 1 then Fail EINVAL
         else case s_bp s of
           Some b \<Rightarrow>
             (case s_op s of
                None \<Rightarrow> Overrun
              | Some a \<Rightarrow>
                  (case copy_segment m s a of
                     None \<Rightarrow> Overrun
                   | Some b' \<Rightarrow> Ok (Buf b', bl)))
         | None \<Rightarrow>
             (case s_op s of
                Some a \<Rightarrow> Ok (Msg a, bl)
              | None \<Rightarrow> Fail ENOENT))"

definition get_option :: "dhcp_message \<Rightarrow> u8 \<Rightarrow> (ptr \<times> int) res option" where
  "get_option m opt =
     (case scan_loop m opt (scan_init m) of
        None \<Rightarrow> None
      | Some None \<Rightarrow> Some Overrun
      | Some (Some s) \<Rightarrow> Some (get_option_exit m opt s))"

text \<open>
  The \<open>n\<close> octets a caller reads at a pointer that \<^verbatim>\<open>get_option\<close> returned: \<open>None\<close> when
  they are not all in the message, or not all octets written to the buffer.
\<close>

definition deref :: "dhcp_message \<Rightarrow> ptr \<Rightarrow> nat \<Rightarrow> u8 list option" where
  "deref m q n =
     (case q of
        Msg a \<Rightarrow> if a + n \<le> length m then Some (take n (drop a m)) else None
      | Buf b \<Rightarrow> if n \<le> length b then Some (take n b) else None)"

text \<open>
  What \<^verbatim>\<open>get_option\<close> returns to a caller that passes \<^verbatim>\<open>len\<close>: the \<^verbatim>\<open>*len\<close> octets at
  the pointer.
\<close>

definition get_option_data :: "dhcp_message \<Rightarrow> u8 \<Rightarrow> u8 list res option" where
  "get_option_data m opt =
     (case get_option m opt of
        None \<Rightarrow> None
      | Some Overrun \<Rightarrow> Some Overrun
      | Some (Fail e) \<Rightarrow> Some (Fail e)
      | Some (Ok (q, n)) \<Rightarrow>
          (case deref m q (nat n) of
             None \<Rightarrow> Some Overrun
           | Some d \<Rightarrow> Some (Ok d)))"

text \<open>
  The callers through \<^verbatim>\<open>get_option_raw\<close> read a fixed number of octets at the pointer:
  \<^verbatim>\<open>get_option_uint8\<close> one, \<^verbatim>\<open>get_option_uint32\<close> and \<^verbatim>\<open>get_option_addr\<close> four. \<open>Fail\<close> is
  their return value \<open>-1\<close>. An address is kept as the word of its octets in network order.
\<close>

definition get_option_fixed :: "dhcp_message \<Rightarrow> u8 \<Rightarrow> nat \<Rightarrow> u8 list res option" where
  "get_option_fixed m opt n =
     (case get_option m opt of
        None \<Rightarrow> None
      | Some Overrun \<Rightarrow> Some Overrun
      | Some (Fail e) \<Rightarrow> Some (Fail e)
      | Some (Ok (q, _)) \<Rightarrow>
          (case deref m q n of
             None \<Rightarrow> Some Overrun
           | Some d \<Rightarrow> Some (Ok d)))"

definition map_res :: "('a \<Rightarrow> 'b) \<Rightarrow> 'a res \<Rightarrow> 'b res" where
  "map_res f r = (case r of Overrun \<Rightarrow> Overrun | Fail e \<Rightarrow> Fail e | Ok x \<Rightarrow> Ok (f x))"

definition get_option_uint8 :: "dhcp_message \<Rightarrow> u8 \<Rightarrow> u8 res option" where
  "get_option_uint8 m opt = map_option (map_res hd) (get_option_fixed m opt 1)"

definition get_option_uint32 :: "dhcp_message \<Rightarrow> u8 \<Rightarrow> u32 res option" where
  "get_option_uint32 m opt = map_option (map_res be32) (get_option_fixed m opt 4)"

definition get_option_addr :: "dhcp_message \<Rightarrow> u8 \<Rightarrow> u32 res option" where
  "get_option_addr m opt = map_option (map_res be32) (get_option_fixed m opt 4)"

text \<open>
  The options of an area as the specification describes them: a PAD octet, or a code
  other than PAD and END followed by a length octet and that many octets of value (a
  segment). \<open>encode_all\<close> is the area's octets for a list of options, \<open>segment_values\<close>
  the concatenation, in order of appearance, of the values of the segments of a code.
\<close>

datatype item = Pad | Tlv u8 "u8 list"

fun encode :: "item \<Rightarrow> u8 list" where
  "encode Pad = [DHO_PAD]"
| "encode (Tlv c v) = c # of_nat (length v) # v"

fun valid_item :: "item \<Rightarrow> bool" where
  "valid_item Pad = True"
| "valid_item (Tlv c v) = (c \<noteq> DHO_PAD \<and> c \<noteq> DHO_END \<and> length v \<le> 255)"

definition encode_all :: "item list \<Rightarrow> u8 list" where
  "encode_all its = concat (map encode its)"

fun item_code :: "item \<Rightarrow> u8 option" where
  "item_code Pad = None"
| "item_code (Tlv c v) = Some c"

fun item_value :: "item \<Rightarrow> u8 list" where
  "item_value Pad = []"
| "item_value (Tlv c v) = v"

definition segment_values :: "u8 \<Rightarrow> item list \<Rightarrow> u8 list" where
  "segment_values c its = concat (map item_value (filter (\<lambda>i. item_code i = Some c) its))"

definition has_segment :: "u8 \<Rightarrow> item list \<Rightarrow> bool" where
  "has_segment c its = (Some c \<in> set (map item_code its))"

subsection \<open>write_lease\<close>

text \<open>
  The loop of \<^verbatim>\<open>write_lease\<close>, from \<^verbatim>\<open>p\<close> to \<^verbatim>\<open>e\<close>: the value of \<^verbatim>\<open>bytes\<close> after it, which
  is \<^verbatim>\<open>p - (const uint8_t *)dhcp\<close> for the \<^verbatim>\<open>p\<close> at which the loop reads DHO_END, and
  \<^verbatim>\<open>sizeof(*dhcp)\<close> when it reads none; \<open>None\<close> when it reads outside of the message.
\<close>

function write_lease_scan :: "dhcp_message \<Rightarrow> nat \<Rightarrow> nat \<Rightarrow> nat option" where
  "write_lease_scan m p e =
     (if p < e then
        (case rd m p of
           None \<Rightarrow> None
         | Some o' \<Rightarrow>
             if o' = DHO_END then Some p
             else if o' \<noteq> DHO_PAD then
               (case rd m (p + 1) of
                  None \<Rightarrow> None
                | Some l \<Rightarrow> write_lease_scan m (p + 1 + 1 + unat l) e)
             else write_lease_scan m (p + 1) e)
      else Some (length m))"
  by pat_completeness auto
termination
  by (relation "measure (\<lambda>(m, p, e). e - p)") auto

declare write_lease_scan.simps [simp del]

text \<open>
  What \<^verbatim>\<open>write_lease\<close> does to the lease file: it unlinks it and returns 0; or \<^verbatim>\<open>open\<close>
  fails and it returns \<open>-1\<close>; or it creates or truncates the file, calls \<^verbatim>\<open>write\<close> with
  the given octets and returns the result of \<^verbatim>\<open>write\<close>. The macro \<^verbatim>\<open>is_bootp\<close> is defined
  in dhcp.h, which is not part of dhcp.c: its value for the message is the parameter
  \<open>bootp\<close>; \<open>opened\<close> tells whether \<^verbatim>\<open>open\<close> succeeds.
\<close>

datatype lease_io = Unlinked | Open_failed | Written "u8 list"

definition write_lease :: "bool \<Rightarrow> bool \<Rightarrow> dhcp_message \<Rightarrow> lease_io res" where
  "write_lease bootp opened m =
     (if bootp then Ok Unlinked
      else if \<not> opened then Ok Open_failed
      else case write_lease_scan m OPTIONS_OFF (OPTIONS_OFF + (length m - OPTIONS_OFF)) of
             None \<Rightarrow> Overrun
           | Some bytes \<Rightarrow> Ok (Written (take bytes m)))"

subsection \<open>The interface and its DHCP state\<close>

text \<open>
  Modelled from the spec: the structs \<^verbatim>\<open>interface\<close>, \<^verbatim>\<open>if_state\<close>, \<^verbatim>\<open>if_options\<close> and
  \<^verbatim>\<open>dhcp_lease\<close> and the states \<^verbatim>\<open>DHS_*\<close> are declared in headers that are not part of
  dhcp.c. The records have the fields that the functions modelled here read or write.
  The bits of \<^verbatim>\<open>ifo->options\<close> are booleans, the option masks are predicates on option
  codes (\<^verbatim>\<open>has_option_mask\<close>), a white or black list is the list of its pairs of an
  address and a mask, and a file descriptor is \<open>-1\<close> when closed. Calls out of dhcp.c
  (the event loop, syslog, the kernel, the script) are recorded, in order, in the field
  \<open>events\<close>; a timeout is recorded with the callback it is registered for.
\<close>

datatype dhs =
  DHS_INIT | DHS_DISCOVER | DHS_REQUEST | DHS_BOUND | DHS_RENEW | DHS_REBIND
  | DHS_REBOOT | DHS_INFORM | DHS_PROBE | DHS_STATIC

datatype callback =
  Start_interface | Send_inform | Send_discover | Send_request | Send_renew | Send_rebind
  | Dhcp_expire

datatype event =
  Syslog string
  | Timeout_add_sec int callback
  | Timeout_delete "callback option"
  | Timeouts_delete_except callback
  | Event_delete int
  | Close int
  | Unlink_leasefile
  | Applyaddr
  | Script_run

record dhcp_lease =
  l_addr :: u32
  l_net :: u32
  l_brd :: u32
  l_server :: u32
  leasetime :: u32
  renewaltime :: u32
  rebindtime :: u32
  l_cookie :: u32
  frominfo :: bool

record if_state =
  state :: dhs
  xid :: u32
  interval :: int
  nakoff :: int
  offer :: "dhcp_message option"
  new :: "dhcp_message option"
  old :: "dhcp_message option"
  reason :: "string option"
  lease :: dhcp_lease
  claims :: int
  probes :: int
  conflicts :: int

record if_options =
  opt_inform :: bool
  opt_arp :: bool
  requiremask :: "u8 \<Rightarrow> bool"
  whitelist :: "(u32 \<times> u32) list"
  blacklist :: "(u32 \<times> u32) list"

record interface =
  istate :: if_state
  ioptions :: if_options
  addr :: u32
  hwaddr :: "u8 list"
  hwlen :: nat
  raw_fd :: int
  arp_fd :: int
  udp_fd :: int
  events :: "event list"

definition NAKOFF_MAX :: int where "NAKOFF_MAX = 60"

definition INADDR_ANY :: u32 where "INADDR_ANY = 0"
definition INADDR_BROADCAST :: u32 where "INADDR_BROADCAST = 0xffffffff"

definition emit :: "event \<Rightarrow> interface \<Rightarrow> interface" where
  "emit ev ifp = ifp\<lparr>events := events ifp @ [ev]\<rparr>"

text \<open>
  \<^verbatim>\<open>log_dhcp\<close> only writes to syslog; it is recorded with its message, without the
  addresses it prints.
\<close>

definition log_dhcp :: "string \<Rightarrow> interface \<Rightarrow> interface" where
  "log_dhcp msg ifp = emit (Syslog msg) ifp"

definition dhcp_close :: "interface \<Rightarrow> interface" where
  "dhcp_close ifp =
     (let ifp = (if arp_fd ifp \<noteq> - 1
                 then (emit (Close (arp_fd ifp)) (emit (Event_delete (arp_fd ifp)) ifp))
                        \<lparr>arp_fd := - 1\<rparr>
                 else ifp);
          ifp = (if raw_fd ifp \<noteq> - 1
                 then (emit (Close (raw_fd ifp)) (emit (Event_delete (raw_fd ifp)) ifp))
                        \<lparr>raw_fd := - 1\<rparr>
                 else ifp)
      in if udp_fd ifp \<noteq> - 1 then (emit (Close (udp_fd ifp)) ifp)\<lparr>udp_fd := - 1\<rparr>
         else ifp)"

definition dhcp_drop :: "interface \<Rightarrow> string \<Rightarrow> interface" where
  "dhcp_drop ifp rsn =
     (let ifp = emit (Timeouts_delete_except Dhcp_expire) ifp;
          ifp = ifp\<lparr>istate := (istate ifp)\<lparr>old := new (istate ifp), new := None,
                                           reason := Some rsn\<rparr>\<rparr>;
          ifp = emit Applyaddr ifp
      in ifp\<lparr>istate := (istate ifp)\<lparr>old := None,
                   lease := (lease (istate ifp))\<lparr>l_addr := 0\<rparr>\<rparr>\<rparr>)"

subsection \<open>dhcp_handle\<close>

text \<open>
  How a function of the state machine ends: \<open>Undefined\<close> when an option lookup read
  outside of the message; it returns; it ends by calling another function of the state
  machine, which is not followed here; or it ends the process with \<^verbatim>\<open>exit\<close>. The interface
  is given as the function leaves it.
\<close>

datatype callee = Dhcp_request | Arp_probe | Dhcp_bind

datatype outcome = Undefined | Returns interface | Calls callee interface | Exits interface

text \<open>
  The NAK branch after the check of the Server-ID: log, drop the lease and unlink the
  lease file unless in test mode, close the sockets, schedule \<^verbatim>\<open>start_interface\<close> after
  \<^verbatim>\<open>nakoff\<close> seconds, then back off.
\<close>

definition nak_restart :: "bool \<Rightarrow> interface \<Rightarrow> interface" where
  "nak_restart test ifp =
     (let ifp = log_dhcp ''NAK:'' ifp;
          ifp = (if \<not> test then emit Unlink_leasefile (dhcp_drop ifp ''NAK'') else ifp);
          ifp = dhcp_close ifp;
          ifp = emit (Timeout_add_sec (nakoff (istate ifp)) Start_interface) ifp
      in ifp\<lparr>istate := (istate ifp)\<lparr>nakoff :=
           (if nakoff (istate ifp) = 0 then 1
            else (let n = nakoff (istate ifp) * 2
                  in if n > NAKOFF_MAX then NAKOFF_MAX else n))\<rparr>\<rparr>)"

definition dhcp_handle_nak :: "bool \<Rightarrow> interface \<Rightarrow> dhcp_message \<Rightarrow> outcome option" where
  "dhcp_handle_nak test ifp dhcp =
     (if requiremask (ioptions ifp) DHO_SERVERID then
        (case get_option_addr dhcp DHO_SERVERID of
           None \<Rightarrow> None
         | Some Overrun \<Rightarrow> Some Undefined
         | Some (Fail e) \<Rightarrow> Some (Returns (log_dhcp ''reject NAK'' ifp))
         | Some (Ok a) \<Rightarrow> Some (Returns (nak_restart test ifp)))
      else Some (Returns (nak_restart test ifp)))"

text \<open>
  The loop \<^verbatim>\<open>for (i = 1; i < 255; i++)\<close> over the required options, as a recursion over
  the values of \<^verbatim>\<open>i\<close> that are left.
\<close>

datatype check = Check_overrun | Rejected | Passed

fun required_options :: "(u8 \<Rightarrow> bool) \<Rightarrow> dhcp_message \<Rightarrow> u8 \<Rightarrow> nat list \<Rightarrow> check option"
where
  "required_options req dhcp ty [] = Some Passed"
| "required_options req dhcp ty (i # rest) =
     (if req (of_nat i) then
        (case get_option_uint8 dhcp (of_nat i) of
           None \<Rightarrow> None
         | Some Overrun \<Rightarrow> Some Check_overrun
         | Some (Ok v) \<Rightarrow> required_options req dhcp ty rest
         | Some (Fail e) \<Rightarrow>
             if ty = 0 \<and> of_nat i = DHO_SERVERID then required_options req dhcp ty rest
             else Some Rejected)
      else required_options req dhcp ty rest)"

text \<open>
  The end of \<^verbatim>\<open>dhcp_handle\<close>, from the test \<^verbatim>\<open>if (type)\<close>: \<open>taken\<close> tells whether the offer
  branch has stored the message in \<^verbatim>\<open>state->offer\<close> already (\<^verbatim>\<open>*dhcpp\<close> is NULL). The
  parameter \<open>has_address\<close> is the result of the call of that name for an address.
\<close>

definition dhcp_handle_ack ::
  "(u32 \<Rightarrow> int) \<Rightarrow> interface \<Rightarrow> dhcp_message \<Rightarrow> u8 \<Rightarrow> bool \<Rightarrow> outcome" where
  "dhcp_handle_ack has_address ifp dhcp ty taken =
     (if ty \<noteq> 0 \<and> ty = DHCP_OFFER then Returns (log_dhcp ''ignoring offer of'' ifp)
      else if ty \<noteq> 0 \<and> ty \<noteq> DHCP_ACK then Returns (log_dhcp ''not ACK or OFFER'' ifp)
      else
        (let ifp = (if ty \<noteq> 0 \<and> \<not> opt_inform (ioptions ifp)
                    then log_dhcp ''acknowledged'' ifp else ifp);
             ifp = (if \<not> taken then ifp\<lparr>istate := (istate ifp)\<lparr>offer := Some dhcp\<rparr>\<rparr>
                    else ifp);
             ifp = ifp\<lparr>istate := (istate ifp)\<lparr>lease :=
                      (lease (istate ifp))\<lparr>frominfo := False\<rparr>\<rparr>\<rparr>;
             ifp = emit (Timeout_delete None) ifp;
             ifp = dhcp_close ifp;
             yi = be32 (field (case offer (istate ifp) of Some m \<Rightarrow> m | None \<Rightarrow> [])
                          YIADDR_OFF 4)
         in if opt_arp (ioptions ifp) \<and> addr ifp \<noteq> yi \<and> has_address yi \<noteq> 1 then
              Calls Arp_probe
                (ifp\<lparr>istate := (istate ifp)\<lparr>claims := 0, probes := 0, conflicts := 0,
                                             state := DHS_PROBE\<rparr>\<rparr>)
            else Calls Dhcp_bind ifp))"

text \<open>
  The offer branch, taken for an OFFER or a BOOTP reply in the state DISCOVER; \<open>sv\<close> is
  the Server-ID stored in the lease.
\<close>

definition dhcp_handle_offer ::
  "bool \<Rightarrow> (u32 \<Rightarrow> int) \<Rightarrow> interface \<Rightarrow> dhcp_message \<Rightarrow> u8 \<Rightarrow> u32 \<Rightarrow> outcome" where
  "dhcp_handle_offer test has_address ifp dhcp ty sv =
     (let ifp = ifp\<lparr>istate := (istate ifp)\<lparr>lease :=
                   (lease (istate ifp))\<lparr>frominfo := False,
                      l_addr := be32 (field dhcp YIADDR_OFF 4),
                      l_cookie := be32 (field dhcp COOKIE_OFF 4),
                      l_server := sv\<rparr>\<rparr>\<rparr>;
          ifp = log_dhcp ''offered'' ifp;
          ifp = ifp\<lparr>istate := (istate ifp)\<lparr>offer := Some dhcp\<rparr>\<rparr>
      in if test then
           Exits (emit Script_run
             (ifp\<lparr>istate := (istate ifp)\<lparr>old := new (istate ifp),
                       new := offer (istate ifp), offer := None,
                       reason := Some ''TEST''\<rparr>\<rparr>))
         else
           (let ifp = emit (Timeout_delete (Some Send_discover)) ifp
            in if ty \<noteq> 0 then Calls Dhcp_request ifp
               else dhcp_handle_ack has_address ifp dhcp ty True))"

text \<open>The part of \<^verbatim>\<open>dhcp_handle\<close> after the checks: the backoff is reset first.\<close>

definition dhcp_handle_valid ::
  "bool \<Rightarrow> (u32 \<Rightarrow> int) \<Rightarrow> interface \<Rightarrow> dhcp_message \<Rightarrow> u8 \<Rightarrow> outcome option" where
  "dhcp_handle_valid test has_address ifp0 dhcp ty =
     (let ifp = ifp0\<lparr>istate := (istate ifp0)\<lparr>nakoff := 0\<rparr>\<rparr>
      in if (ty = 0 \<or> ty = DHCP_OFFER) \<and> state (istate ifp) = DHS_DISCOVER then
           (if ty = 0 then
              Some (dhcp_handle_offer test has_address ifp dhcp ty INADDR_ANY)
            else
              (case get_option_addr dhcp DHO_SERVERID of
                 None \<Rightarrow> None
               | Some Overrun \<Rightarrow> Some Undefined
               | Some (Fail e) \<Rightarrow>
                   Some (dhcp_handle_offer test has_address ifp dhcp ty INADDR_ANY)
               | Some (Ok a) \<Rightarrow> Some (dhcp_handle_offer test has_address ifp dhcp ty a)))
         else Some (dhcp_handle_ack has_address ifp dhcp ty False))"

text \<open>The message type \<^verbatim>\<open>dhcp_handle\<close> works with: 0 when the lookup of option 53 fails.\<close>

definition message_type :: "dhcp_message \<Rightarrow> u8 res option" where
  "message_type dhcp =
     (case get_option_uint8 dhcp DHO_MESSAGETYPE of
        None \<Rightarrow> None
      | Some Overrun \<Rightarrow> Some Overrun
      | Some (Fail e) \<Rightarrow> Some (Ok 0)
      | Some (Ok t) \<Rightarrow> Some (Ok t))"

definition invalid_address :: "dhcp_message \<Rightarrow> bool" where
  "invalid_address dhcp =
     ((be32 (field dhcp CIADDR_OFF 4) = INADDR_ANY
         \<or> be32 (field dhcp CIADDR_OFF 4) = INADDR_BROADCAST) \<and>
      (be32 (field dhcp YIADDR_OFF 4) = INADDR_ANY
         \<or> be32 (field dhcp YIADDR_OFF 4) = INADDR_BROADCAST))"

text \<open>
  \<^verbatim>\<open>dhcp_handle\<close>. \<open>test\<close> is the bit DHCPCD_TEST of the global \<^verbatim>\<open>options\<close>. The result is
  \<open>None\<close> when a lookup of an option in the message does not return.
\<close>

definition dhcp_handle ::
  "bool \<Rightarrow> (u32 \<Rightarrow> int) \<Rightarrow> interface \<Rightarrow> dhcp_message \<Rightarrow> outcome option" where
  "dhcp_handle test has_address ifp0 dhcp =
     (let ifp = ifp0\<lparr>istate := (istate ifp0)\<lparr>interval := 0\<rparr>\<rparr>
      in case message_type dhcp of
           None \<Rightarrow> None
         | Some Overrun \<Rightarrow> Some Undefined
         | Some (Fail e) \<Rightarrow> Some Undefined
         | Some (Ok ty) \<Rightarrow>
             if ty = DHCP_NAK then dhcp_handle_nak test ifp dhcp
             else
               (case required_options (requiremask (ioptions ifp)) dhcp ty [1..<255] of
                  None \<Rightarrow> None
                | Some Check_overrun \<Rightarrow> Some Undefined
                | Some Rejected \<Rightarrow> Some (Returns (log_dhcp ''reject DHCP'' ifp))
                | Some Passed \<Rightarrow>
                    if (ty = 0 \<or> ty = DHCP_OFFER \<or> ty = DHCP_ACK) \<and> invalid_address dhcp
                    then Some (Returns (log_dhcp ''reject invalid address'' ifp))
                    else dhcp_handle_valid test has_address ifp dhcp ty))"

text \<open>Consecutive calls of \<^verbatim>\<open>dhcp_handle\<close>, one for each message of a list.\<close>

fun dhcp_handle_all ::
  "bool \<Rightarrow> (u32 \<Rightarrow> int) \<Rightarrow> interface \<Rightarrow> dhcp_message list \<Rightarrow> outcome option" where
  "dhcp_handle_all test has_address ifp [] = Some (Returns ifp)"
| "dhcp_handle_all test has_address ifp (m # ms) =
     (case dhcp_handle test has_address ifp m of
        Some (Returns ifp') \<Rightarrow> dhcp_handle_all test has_address ifp' ms
      | r \<Rightarrow> r)"

text \<open>The delays of the timeouts registered for \<^verbatim>\<open>start_interface\<close>, in order.\<close>

fun restart_delays :: "event list \<Rightarrow> int list" where
  "restart_delays [] = []"
| "restart_delays (Timeout_add_sec n Start_interface # es) = n # restart_delays es"
| "restart_delays (ev # es) = restart_delays es"

text \<open>The backoff sequence of the specification: 0, 1, 2, 4, ..., doubling up to 60.\<close>

definition nak_delay :: "nat \<Rightarrow> int" where
  "nak_delay k = (if k = 0 then 0 else min (2 ^ (k - 1)) 60)"

text \<open>
  A message is a NAK that \<^verbatim>\<open>dhcp_handle\<close> does not reject when its type is DHCP_NAK and,
  if the Server-ID is required, it has one.
\<close>

definition accepted_nak :: "if_options \<Rightarrow> dhcp_message \<Rightarrow> bool" where
  "accepted_nak ifo dhcp =
     (message_type dhcp = Some (Ok DHCP_NAK) \<and>
      (requiremask ifo DHO_SERVERID \<longrightarrow>
         (case get_option_addr dhcp DHO_SERVERID of Some (Ok a) \<Rightarrow> True | _ \<Rightarrow> False)))"

text \<open>The interface an outcome leaves, when it is defined.\<close>

fun outcome_interface :: "outcome \<Rightarrow> interface option" where
  "outcome_interface Undefined = None"
| "outcome_interface (Returns i) = Some i"
| "outcome_interface (Calls f i) = Some i"
| "outcome_interface (Exits i) = Some i"

subsection \<open>The dispatcher\<close>

text \<open>
  The loop of \<^verbatim>\<open>blacklisted_ip\<close> and \<^verbatim>\<open>whitelisted_ip\<close> over the pairs of a list: 1 at
  the first pair whose address is the given address under the pair's mask, else 0.
\<close>

fun list_loop :: "(u32 \<times> u32) list \<Rightarrow> u32 \<Rightarrow> int" where
  "list_loop [] a = 0"
| "list_loop ((net, msk) # rest) a = (if net = (a AND msk) then 1 else list_loop rest a)"

definition blacklisted_ip :: "if_options \<Rightarrow> u32 \<Rightarrow> int" where
  "blacklisted_ip ifo a = list_loop (blacklist ifo) a"

definition whitelisted_ip :: "if_options \<Rightarrow> u32 \<Rightarrow> int" where
  "whitelisted_ip ifo a =
     (if length (whitelist ifo) = 0 then - 1 else list_loop (whitelist ifo) a)"

text \<open>An address matches a list when it matches one of its entries.\<close>

definition matches :: "(u32 \<times> u32) list \<Rightarrow> u32 \<Rightarrow> bool" where
  "matches entries a = (\<exists>(net, msk) \<in> set entries. net = (a AND msk))"

text \<open>
  One round of the loop of \<^verbatim>\<open>dhcp_handlepacket\<close>, for one frame: \<open>valid\<close> and \<open>from\<close> are
  the result of \<^verbatim>\<open>valid_udp_packet\<close> and the source address it finds, \<open>payload\<close> the octets
  that \<^verbatim>\<open>get_udp_data\<close> returns, \<open>buf\<close> the message buffer \<^verbatim>\<open>dhcp\<close> before the \<^verbatim>\<open>memcpy\<close>
  (zero octets when fresh). The round ends with \<^verbatim>\<open>continue\<close> for one of the reasons
  given, or calls \<^verbatim>\<open>dhcp_handle\<close> for the message. Its log lines are not modelled.
\<close>

datatype verdict =
  Invalid_udp | Not_whitelisted | Blacklisted | Too_big | Bogus_cookie | Wrong_xid
  | Wrong_hwaddr | Handle dhcp_message

definition frame_message :: "dhcp_message \<Rightarrow> u8 list \<Rightarrow> dhcp_message" where
  \<comment> \<open>the buffer after \<^verbatim>\<open>memcpy(dhcp, pp, bytes)\<close>\<close>
  "frame_message buf payload = payload @ drop (length payload) buf"

definition receive_frame ::
  "interface \<Rightarrow> dhcp_message \<Rightarrow> bool \<Rightarrow> u32 \<Rightarrow> u8 list \<Rightarrow> verdict" where
  "receive_frame ifp buf valid from payload =
     (if \<not> valid then Invalid_udp
      else
        (let i = whitelisted_ip (ioptions ifp) from
         in if i = 0 then Not_whitelisted
            else if i \<noteq> 1 \<and> blacklisted_ip (ioptions ifp) from = 1 then Blacklisted
            else if length payload > length buf then Too_big
            else
              (let dhcp = frame_message buf payload
               in if be32 (field dhcp COOKIE_OFF 4) \<noteq> MAGIC_COOKIE then Bogus_cookie
                  else if xid (istate ifp) \<noteq> be32 (field dhcp XID_OFF 4) then Wrong_xid
                  else if hwlen ifp \<le> CHADDR_LEN \<and>
                          take (hwlen ifp) (field dhcp CHADDR_OFF CHADDR_LEN)
                            \<noteq> take (hwlen ifp) (hwaddr ifp)
                  then Wrong_hwaddr
                  else Handle dhcp)))"

definition dropped :: "verdict \<Rightarrow> bool" where
  "dropped v = (case v of Handle m \<Rightarrow> False | _ \<Rightarrow> True)"

subsection \<open>send_message: the retransmission interval and timer\<close>

text \<open>
  The update of \<^verbatim>\<open>state->interval\<close> in \<^verbatim>\<open>send_message\<close> for a send with a callback.
  The interval is a \<^verbatim>\<open>time_t\<close>, modelled as an integer: it never exceeds 64.
\<close>

definition next_interval :: "int \<Rightarrow> int" where
  "next_interval i = (if i = 0 then 4 else (let d = i * 2 in if d > 64 then 64 else d))"

text \<open>
  The macros DHCP_RAND_MIN, DHCP_RAND_MIN_U and DHCP_RAND_MAX_U are defined in dhcp.h,
  which is not part of dhcp.c: they are the parameters \<open>rand_min\<close>, \<open>rand_min_u\<close> and
  \<open>rand_max_u\<close>. The time \<^verbatim>\<open>tv\<close> is given in microseconds, \<^verbatim>\<open>tv_sec * 1000000 + tv_usec\<close>,
  which \<^verbatim>\<open>timernorm\<close> does not change; \<open>r\<close> is the value of \<^verbatim>\<open>arc4random()\<close>, and the
  remainder is that of C for a divisor between 1 and \<open>2^32 - 1\<close>.
\<close>

definition send_delay :: "int \<Rightarrow> int \<Rightarrow> int \<Rightarrow> int \<Rightarrow> u32 \<Rightarrow> int" where
  "send_delay rand_min rand_min_u rand_max_u i r =
     (i + rand_min) * 1000000 + uint r mod (rand_max_u - rand_min_u)"

text \<open>
  What happens between the computation of \<^verbatim>\<open>tv\<close> and the registration of the timeout:
  \<^verbatim>\<open>dhcp_open\<close> fails and \<^verbatim>\<open>send_message\<close> returns; or the message is sent to the server's
  address with \<^verbatim>\<open>send_packet\<close>, with or without success; or it is sent with
  \<^verbatim>\<open>send_raw_packet\<close>, whose failure sets \<^verbatim>\<open>callback\<close> to NULL.
\<close>

datatype send_io = Open_fails | Unicast_fails | Unicast_sent | Raw_fails | Raw_sent

text \<open>
  \<^verbatim>\<open>send_message\<close> for the interval and the timer: the new \<^verbatim>\<open>state->interval\<close>, and the
  timeout registered with \<^verbatim>\<open>eloop_timeout_add_tv\<close>, if any, as its delay in microseconds
  and its callback. The sockets, the message built and the lease dropped on a failure
  are not part of this model.
\<close>

definition send_message ::
  "int \<Rightarrow> int \<Rightarrow> int \<Rightarrow> send_io \<Rightarrow> u32 \<Rightarrow> int \<Rightarrow> callback option
     \<Rightarrow> int \<times> (int \<times> callback) option" where
  "send_message rand_min rand_min_u rand_max_u io r i cb =
     (case cb of
        None \<Rightarrow> (i, None)
      | Some f \<Rightarrow>
          (let i' = next_interval i;
               tv = send_delay rand_min rand_min_u rand_max_u i' r
           in case io of
                Open_fails \<Rightarrow> (i', None)
              | Raw_fails \<Rightarrow> (i', None)
              | _ \<Rightarrow> (i', Some (tv, f))))"

text \<open>
  A run of retransmissions: the timeout's callback calls \<^verbatim>\<open>send_message\<close> again with
  itself as the callback. The results of the calls, in order, for the list of what each
  call meets.
\<close>

fun send_run ::
  "int \<Rightarrow> int \<Rightarrow> int \<Rightarrow> callback \<Rightarrow> int \<Rightarrow> (send_io \<times> u32) list
     \<Rightarrow> (int \<times> (int \<times> callback) option) list" where
  "send_run rand_min rand_min_u rand_max_u f i [] = []"
| "send_run rand_min rand_min_u rand_max_u f i ((io, r) # rest) =
     (let res = send_message rand_min rand_min_u rand_max_u io r i (Some f)
      in res # send_run rand_min rand_min_u rand_max_u f (fst res) rest)"

text \<open>The interval of the \<open>n\<close>-th send of a run, counted from 1: 4, 8, 16, 32, 64, 64, ...\<close>

definition send_interval :: "nat \<Rightarrow> int" where
  "send_interval n = min (4 * 2 ^ (n - 1)) 64"

text \<open>
  A result of \<^verbatim>\<open>send_message\<close> has the interval \<open>i\<close> and, if it registers a timeout, a
  delay of \<open>i\<close> plus a jitter from \<open>lo\<close> seconds up to \<open>hi\<close> seconds.
\<close>

definition jittered :: "int \<Rightarrow> int \<Rightarrow> int \<Rightarrow> int \<times> (int \<times> callback) option \<Rightarrow> bool" where
  "jittered lo hi i res =
     (fst res = i \<and>
      (case snd res of
         None \<Rightarrow> True
       | Some (tv, f) \<Rightarrow> (i + lo) * 1000000 \<le> tv \<and> tv \<le> (i + hi) * 1000000))"

subsection \<open>dhcp_bind: the times of the lease\<close>

text \<open>
  Modelled from the spec: T1 and T2 are defined in dhcp.h, which is not part of dhcp.c;
  the spec gives them as 0.5 and 0.875. The product \<^verbatim>\<open>lease->leasetime * T1\<close> is computed
  in double precision, where it is exact for a 32-bit lease time, and the assignment to
  the \<^verbatim>\<open>uint32_t\<close> field drops the fraction.
\<close>

definition T1_of :: "u32 \<Rightarrow> u32" where
  "T1_of lt = of_nat (unat lt div 2)"

definition T2_of :: "u32 \<Rightarrow> u32" where
  "T2_of lt = of_nat (unat lt * 7 div 8)"

definition DHCP_MIN_LEASE :: u32 where "DHCP_MIN_LEASE = 20"

definition INFINITE_LEASE :: u32 where
  \<comment> \<open>\<^verbatim>\<open>~0U\<close>\<close>
  "INFINITE_LEASE = 0xffffffff"

text \<open>
  A lookup followed by the code that depends on its result, which is given the value
  found, or \<open>None\<close> when the lookup returned \<open>-1\<close>.
\<close>

definition lookup :: "'a res option \<Rightarrow> ('a option \<Rightarrow> 'b res option) \<Rightarrow> 'b res option" where
  "lookup r k =
     (case r of
        None \<Rightarrow> None
      | Some Overrun \<Rightarrow> Some Overrun
      | Some (Fail e) \<Rightarrow> k None
      | Some (Ok v) \<Rightarrow> k (Some v))"

text \<open>
  \<^verbatim>\<open>get_lease\<close>. \<open>get_netmask\<close> is the function of that name, which is not part of dhcp.c;
  \<open>wraps\<close> is the test \<^verbatim>\<open>now.tv_sec + (time_t)lease->leasetime < now.tv_sec\<close> as a
  predicate of the lease time, for the clock and the \<^verbatim>\<open>time_t\<close> of the machine.
\<close>

definition get_lease ::
  "(u32 \<Rightarrow> u32) \<Rightarrow> (u32 \<Rightarrow> bool) \<Rightarrow> dhcp_lease \<Rightarrow> dhcp_message \<Rightarrow> dhcp_lease res option"
where
  "get_lease get_netmask wraps l0 dhcp =
     (let l = l0\<lparr>l_cookie := be32 (field dhcp COOKIE_OFF 4)\<rparr>;
          l = (if be32 (field dhcp YIADDR_OFF 4) \<noteq> 0
               then l\<lparr>l_addr := be32 (field dhcp YIADDR_OFF 4)\<rparr>
               else l\<lparr>l_addr := be32 (field dhcp CIADDR_OFF 4)\<rparr>)
      in lookup (get_option_addr dhcp DHO_SUBNETMASK) (\<lambda>net.
         let l = l\<lparr>l_net := (case net of Some v \<Rightarrow> v | None \<Rightarrow> get_netmask (l_addr l))\<rparr>
         in lookup (get_option_addr dhcp DHO_BROADCAST) (\<lambda>brd.
         let l = l\<lparr>l_brd := (case brd of Some v \<Rightarrow> v
                                | None \<Rightarrow> l_addr l OR NOT (l_net l))\<rparr>
         in lookup (get_option_uint32 dhcp DHO_LEASETIME) (\<lambda>lt.
         let l = l\<lparr>leasetime := (case lt of
                                   Some v \<Rightarrow> if wraps v then INFINITE_LEASE else v
                                 | None \<Rightarrow> INFINITE_LEASE)\<rparr>
         in lookup (get_option_uint32 dhcp DHO_RENEWALTIME) (\<lambda>rn.
         let l = l\<lparr>renewaltime := (case rn of Some v \<Rightarrow> v | None \<Rightarrow> 0)\<rparr>
         in lookup (get_option_uint32 dhcp DHO_REBINDTIME) (\<lambda>rb.
         let l = l\<lparr>rebindtime := (case rb of Some v \<Rightarrow> v | None \<Rightarrow> 0)\<rparr>
         in lookup (get_option_addr dhcp DHO_SERVERID) (\<lambda>sv.
         Some (Ok (l\<lparr>l_server := (case sv of Some v \<Rightarrow> v
                                     | None \<Rightarrow> INADDR_ANY)\<rparr>)))))))))"

text \<open>
  The value that a message supplies for a 32-bit option: \<open>None\<close> when the option is
  missing, that is when \<^verbatim>\<open>get_option_uint32\<close> does not find it.
\<close>

definition supplied :: "dhcp_message \<Rightarrow> u8 \<Rightarrow> u32 option" where
  "supplied dhcp c = (case get_option_uint32 dhcp c of Some (Ok v) \<Rightarrow> Some v | _ \<Rightarrow> None)"

text \<open>The branch of \<^verbatim>\<open>dhcp_bind\<close> for a lease from a DHCP server, from the test for an
  infinite lease time.\<close>

definition bind_times :: "dhcp_lease \<Rightarrow> dhcp_lease" where
  "bind_times l0 =
     (if leasetime l0 = INFINITE_LEASE then
        l0\<lparr>renewaltime := leasetime l0, rebindtime := leasetime l0\<rparr>
      else
        (let l = (if leasetime l0 < DHCP_MIN_LEASE then l0\<lparr>leasetime := DHCP_MIN_LEASE\<rparr>
                  else l0);
             l = (if rebindtime l = 0 then l\<lparr>rebindtime := T2_of (leasetime l)\<rparr>
                  else if rebindtime l \<ge> leasetime l
                  then l\<lparr>rebindtime := T2_of (leasetime l)\<rparr>
                  else l)
         in if renewaltime l = 0 then l\<lparr>renewaltime := T1_of (leasetime l)\<rparr>
            else if renewaltime l > rebindtime l
            then l\<lparr>renewaltime := T1_of (leasetime l)\<rparr>
            else l))"

text \<open>
  What \<^verbatim>\<open>dhcp_bind\<close> does to the lease that \<^verbatim>\<open>get_lease\<close> has filled in, when it does not
  exit in test mode: \<open>static\<close> and \<open>inform\<close> are the bits DHCPCD_STATIC and DHCPCD_INFORM
  of the interface's options, \<open>cookie_ok\<close> tells whether the cookie of the new message is
  the magic cookie, \<open>req_mask\<close> and \<open>req_addr\<close> are the configured mask and address and
  \<open>if_addr\<close> the address of the interface.
\<close>

definition dhcp_bind_lease ::
  "bool \<Rightarrow> u32 \<Rightarrow> bool \<Rightarrow> bool \<Rightarrow> u32 \<Rightarrow> u32 \<Rightarrow> dhcp_lease \<Rightarrow> dhcp_lease" where
  "dhcp_bind_lease static req_mask cookie_ok inform req_addr if_addr l0 =
     (let l = (if static then l0\<lparr>leasetime := INFINITE_LEASE, l_net := req_mask\<rparr>
               else if \<not> cookie_ok then l0\<lparr>leasetime := INFINITE_LEASE\<rparr>
               else if inform then
                 l0\<lparr>l_addr := (if req_addr \<noteq> 0 then req_addr else if_addr),
                    leasetime := INFINITE_LEASE\<rparr>
               else bind_times l0)
      in if leasetime l = INFINITE_LEASE
         then l\<lparr>renewaltime := leasetime l, rebindtime := leasetime l\<rparr>
         else l)"

subsection \<open>The retransmission and backoff steps\<close>

text \<open>The update of \<^verbatim>\<open>state->nakoff\<close> after a NAK.\<close>

definition nak_next :: "int \<Rightarrow> int" where
  "nak_next n =
     (if n = 0 then 1 else (let d = n * 2 in if d > NAKOFF_MAX then NAKOFF_MAX else d))"

text \<open>
  The interface after \<^verbatim>\<open>dhcp_handle\<close> has rejected a message with the log line \<open>w\<close>: the
  interval is reset and the line is logged.
\<close>

definition rejected :: "interface \<Rightarrow> string \<Rightarrow> interface" where
  "rejected ifp w =
     ifp\<lparr>istate := (istate ifp)\<lparr>interval := 0\<rparr>, events := events ifp @ [Syslog w]\<rparr>"

subsection \<open>The control of the scan\<close>

text \<open>
  The variables of the scan that decide its course, which are the same for every code
  looked up, and the relation between two rounds from states that agree on them.
\<close>

definition ctl :: "scan \<Rightarrow> nat \<times> nat \<times> u8" where
  "ctl s = (s_p s, s_e s, s_overl s)"

fun step_sim :: "step \<Rightarrow> step \<Rightarrow> bool" where
  "step_sim Fault y = True"
| "step_sim x Fault = True"
| "step_sim (Exit s) (Exit t) = True"
| "step_sim (Next s) (Next t) = (ctl s = ctl t)"
| "step_sim x y = False"

declare step_sim.simps [simp del]

subsection \<open>The invariant of the scan\<close>

text \<open>
  What holds of the variables of the loop of \<^verbatim>\<open>get_option\<close> when the values of the
  segments of the code met so far are \<open>acc\<close>: \<^verbatim>\<open>bl\<close> is their length, and they are the
  octets copied to the buffer followed by the \<^verbatim>\<open>ol\<close> octets at \<^verbatim>\<open>op\<close>.
\<close>

definition acc_inv :: "dhcp_message \<Rightarrow> scan \<Rightarrow> u8 list \<Rightarrow> bool" where
  "acc_inv m s acc =
     (s_bl s = int (length acc) \<and> length acc \<le> s_p s \<and> s_p s \<le> length m \<and>
      (case s_op s of
         None \<Rightarrow> s_bp s = None \<and> acc = []
       | Some a \<Rightarrow>
           a + unat (s_ol s) \<le> s_p s \<and>
           acc = (case s_bp s of None \<Rightarrow> [] | Some b \<Rightarrow> b) @ take (unat (s_ol s)) (drop a m)))"

subsection \<open>What get_option is to return\<close>

text \<open>
  The result for the collected octets \<open>v\<close> of a code: Invalid when \<^verbatim>\<open>validate_length\<close>
  rejects their number, else the first octets of \<open>v\<close>, as many as \<^verbatim>\<open>validate_length\<close>
  allows.
\<close>

definition returned :: "u8 \<Rightarrow> u8 list \<Rightarrow> u8 list res" where
  "returned c v =
     (let n = validate_length c (int (length v))
      in if n = - 1 then Fail EINVAL else Ok (take (nat n) v))"

subsection \<open>Example messages\<close>

text \<open>
  A message of 548 octets (an options area of 308) from the first 44 octets of the
  header, the servername and bootfile fields and the options, each field filled up with
  zero octets; the cookie is the magic cookie.
\<close>

definition pad_to :: "nat \<Rightarrow> u8 list \<Rightarrow> u8 list" where
  "pad_to n bs = bs @ replicate (n - length bs) 0"

definition mk_message :: "u8 list \<Rightarrow> u8 list \<Rightarrow> u8 list \<Rightarrow> u8 list \<Rightarrow> dhcp_message" where
  "mk_message hd44 sname file opts =
     pad_to 44 hd44 @ pad_to 64 sname @ pad_to 128 file @ [0x63, 0x82, 0x53, 0x63]
       @ pad_to 308 opts"

text \<open>A message with a subnet mask of two octets.\<close>

definition short_mask_msg :: dhcp_message where
  "short_mask_msg = mk_message [] [] [] [1, 2, 0xff, 0xff, 0xff]"

text \<open>An ACK: its END option is at the offset 243.\<close>

definition ack_msg :: dhcp_message where
  "ack_msg = mk_message [] [] [] [53, 1, 5, 0xff]"

text \<open>
  A message whose options overload the bootfile field, which holds a zero octet and
  the same overload option again.
\<close>

definition rescan_msg :: dhcp_message where
  "rescan_msg = mk_message [] [] [0, 52, 1, 1, 0xff] [52, 1, 1, 0xff]"

text \<open>
  A message whose options overload the bootfile field only; the bootfile field holds an
  overload option for the servername field, which holds an option 43.
\<close>

definition nested_msg :: dhcp_message where
  "nested_msg = mk_message [] [0, 43, 1, 9, 0xff] [0, 52, 1, 2, 0xff] [52, 1, 1, 0xff]"

text \<open>
  An interface in the state DISCOVER with the transaction 0x01020304 and the hardware
  address 02:aa:bb:cc:dd:ee, that requires no option and has no white or black list.
\<close>

definition no_lease :: dhcp_lease where
  "no_lease = \<lparr>l_addr = 0, l_net = 0, l_brd = 0, l_server = 0, leasetime = 0,
     renewaltime = 0, rebindtime = 0, l_cookie = 0, frominfo = False\<rparr>"

definition plain_options :: if_options where
  "plain_options = \<lparr>opt_inform = False, opt_arp = False, requiremask = (\<lambda>c. False),
     whitelist = [], blacklist = []\<rparr>"

definition discovering :: interface where
  "discovering =
     \<lparr>istate = \<lparr>state = DHS_DISCOVER, xid = 0x01020304, interval = 8, nakoff = 4,
         offer = None, new = None, old = None, reason = None, lease = no_lease,
         claims = 0, probes = 0, conflicts = 0\<rparr>,
      ioptions = plain_options, addr = 0,
      hwaddr = [0x02, 0xaa, 0xbb, 0xcc, 0xdd, 0xee], hwlen = 6,
      raw_fd = 3, arp_fd = - 1, udp_fd = - 1, events = []\<rparr>"

definition no_address :: "u32 \<Rightarrow> int" where
  "no_address a = 0"

text \<open>
  The first 44 octets of a reply to this interface: op 2, Ethernet, the transaction
  0x01020304, ciaddr and yiaddr 0.0.0.0, and the hardware address.
\<close>

definition reply_header :: "u8 list" where
  "reply_header =
     [2, 1, 6, 0] @ [1, 2, 3, 4] @ [0, 0, 0, 0] @ replicate 16 0
       @ [0x02, 0xaa, 0xbb, 0xcc, 0xdd, 0xee]"

text \<open>An OFFER that offers no address, and a NAK.\<close>

definition null_offer :: dhcp_message where
  "null_offer = mk_message reply_header [] [] [53, 1, 2, 0xff]"

definition nak_msg :: dhcp_message where
  "nak_msg = mk_message reply_header [] [] [53, 1, 6, 0xff]"

text \<open>
  A plain BOOTP reply to the interface, offering 10.0.0.5: the 236 octets of the BOOTP
  header followed by 64 zero octets of vendor area, without the magic cookie.
\<close>

definition bootp_reply :: "u8 list" where
  "bootp_reply =
     [2, 1, 6, 0] @ [1, 2, 3, 4] @ [0, 0, 0, 0] @ [0, 0, 0, 0] @ [10, 0, 0, 5]
       @ replicate 8 0 @ [0x02, 0xaa, 0xbb, 0xcc, 0xdd, 0xee] @ replicate 10 0
       @ replicate 192 0 @ replicate 64 0"

text \<open>The interface with the server 10.0.0.1 in both its white list and its black list.\<close>

definition listed :: interface where
  "listed = discovering\<lparr>ioptions := plain_options
     \<lparr>whitelist := [(0x0a000001, 0xffffffff)], blacklist := [(0x0a000001, 0xffffffff)]\<rparr>\<rparr>"

text \<open>The same interface before any NAK.\<close>

definition fresh :: interface where
  "fresh = discovering\<lparr>istate := (istate discovering)\<lparr>nakoff := 0\<rparr>\<rparr>"

text \<open>
  The ACK of the specification's first scenario, for the address 192.168.1.50: the
  message type, the server 192.168.1.1, a lease time of 3600 seconds and the mask
  255.255.255.0. And an ACK with a lease time of 200 seconds and a renewal time and a
  rebind time of 100 seconds each.
\<close>

definition ack_header :: "u8 list" where
  "ack_header =
     [2, 1, 6, 0] @ [1, 2, 3, 4] @ [0, 0, 0, 0] @ [0, 0, 0, 0] @ [192, 168, 1, 50]
       @ replicate 8 0 @ [0x02, 0xaa, 0xbb, 0xcc, 0xdd, 0xee]"

definition minimal_ack :: dhcp_message where
  "minimal_ack =
     mk_message ack_header [] []
       [53, 1, 5, 54, 4, 192, 168, 1, 1, 51, 4, 0, 0, 0x0e, 0x10,
        1, 4, 0xff, 0xff, 0xff, 0, 0xff]"

definition equal_times_ack :: dhcp_message where
  "equal_times_ack =
     mk_message ack_header [] []
       [53, 1, 5, 54, 4, 192, 168, 1, 1, 51, 4, 0, 0, 0, 200,
        58, 4, 0, 0, 0, 100, 59, 4, 0, 0, 0, 100, 0xff]"

text \<open>A netmask by the class of an address, and a clock with which no lease time wraps.\<close>

definition class_netmask :: "u32 \<Rightarrow> u32" where
  "class_netmask a =
     (if a < 0x80000000 then 0xff000000 else if a < 0xc0000000 then 0xffff0000
      else 0xffffff00)"

definition never_wraps :: "u32 \<Rightarrow> bool" where
  "never_wraps v = False"

text \<open>The leases that \<^verbatim>\<open>get_lease\<close> reads from these two messages into an empty lease.\<close>

definition minimal_lease :: dhcp_lease where
  "minimal_lease = \<lparr>l_addr = 0xc0a80132, l_net = 0xffffff00, l_brd = 0xc0a801ff,
     l_server = 0xc0a80101, leasetime = 3600, renewaltime = 0, rebindtime = 0,
     l_cookie = 0x63825363, frominfo = False\<rparr>"

definition equal_times_lease :: dhcp_lease where
  "equal_times_lease = \<lparr>l_addr = 0xc0a80132, l_net = 0xffffff00, l_brd = 0xc0a801ff,
     l_server = 0xc0a80101, leasetime = 200, renewaltime = 100, rebindtime = 100,
     l_cookie = 0x63825363, frominfo = False\<rparr>"

text \<open>An OFFER of the address 10.0.0.5 to the interface.\<close>

definition offer_msg :: dhcp_message where
  "offer_msg =
     mk_message
       ([2, 1, 6, 0] @ [1, 2, 3, 4] @ [0, 0, 0, 0] @ [0, 0, 0, 0] @ [10, 0, 0, 5]
          @ replicate 8 0 @ [0x02, 0xaa, 0xbb, 0xcc, 0xdd, 0xee])
       [] [] [53, 1, 2, 0xff]"

text \<open>
  The variables \<^verbatim>\<open>p\<close>, \<^verbatim>\<open>e\<close> and \<^verbatim>\<open>overl\<close> with which the scan of \<open>rescan_msg\<close> is at the
  head of the loop once it is in the bootfile field.
\<close>

definition in_file :: "scan \<Rightarrow> bool" where
  "in_file s = (s_e s = 236 \<and> (s_p s = 109 \<and> s_overl s = 0 \<or> s_p s = 112 \<and> s_overl s = 1))"

section \<open>Properties\<close>

subsection \<open>validate_length\<close>

lemma validate_loop_lookup:
  "validate_loop tbl c dl =
     (case opt_lookup tbl c of None \<Rightarrow> dl | Some t \<Rightarrow> validate_entry t dl)"
  by (induction tbl) auto

lemma validate_entry_ipv4_array:
  assumes "set t - {REQUEST} = {ADDRIPV4, ARRAY}"
  shows "validate_entry t dl = (if dl < 4 then - 1 else dl - dl mod 4)"
proof -
  from assms have m: "ADDRIPV4 \<in> set t" "ARRAY \<in> set t"
    "STRING \<notin> set t" "RFC3442 \<notin> set t" "RFC5969 \<notin> set t" by auto
  then have "t \<noteq> []" by auto
  with m show ?thesis by (simp add: validate_entry_def has_flag_def)
qed

lemma validate_entry_u32:
  assumes "set t - {REQUEST} = {UINT32}"
  shows "validate_entry t dl = (if dl < 4 then - 1 else 4)"
proof -
  from assms have m: "UINT32 \<in> set t" "ARRAY \<notin> set t" "UINT16 \<notin> set t"
    "UINT8 \<notin> set t" "STRING \<notin> set t" "RFC3442 \<notin> set t" "RFC5969 \<notin> set t" by auto
  then have "t \<noteq> []" by auto
  with m show ?thesis by (simp add: validate_entry_def has_flag_def)
qed

lemma validate_entry_u16:
  assumes "set t - {REQUEST} = {UINT16}"
  shows "validate_entry t dl = (if dl < 2 then - 1 else 2)"
proof -
  from assms have m: "UINT16 \<in> set t" "ARRAY \<notin> set t" "UINT8 \<notin> set t"
    "STRING \<notin> set t" "RFC3442 \<notin> set t" "RFC5969 \<notin> set t" by auto
  then have "t \<noteq> []" by auto
  with m show ?thesis by (simp add: validate_entry_def has_flag_def)
qed

lemma validate_entry_u8:
  assumes "set t - {REQUEST} = {UINT8}"
  shows "validate_entry t dl = (if dl < 1 then - 1 else 1)"
proof -
  from assms have m: "UINT8 \<in> set t" "ARRAY \<notin> set t"
    "STRING \<notin> set t" "RFC3442 \<notin> set t" "RFC5969 \<notin> set t" by auto
  then have "t \<noteq> []" by auto
  with m show ?thesis by (simp add: validate_entry_def has_flag_def)
qed

lemma validate_entry_scalar:
  assumes "scalar_width t = Some w"
  shows "validate_entry t dl = (if dl < w then - 1 else w)"
proof -
  consider (a) "set t - {REQUEST} = {UINT32}" "w = 4"
    | (b) "set t - {REQUEST} = {UINT16}" "w = 2"
    | (c) "set t - {REQUEST} = {UINT8}" "w = 1"
    using assms by (auto simp: scalar_width_def split: if_splits)
  then show ?thesis
  proof cases
    case a then show ?thesis by (simp add: validate_entry_u32)
  next
    case b then show ?thesis by (simp add: validate_entry_u16)
  next
    case c then show ?thesis by (simp add: validate_entry_u8)
  qed
qed

lemma validate_length_lookup:
  "validate_length c dl =
     (if dl = 0 then - 1
      else case option_type c of None \<Rightarrow> dl | Some t \<Rightarrow> validate_entry t dl)"
  by (simp add: validate_length_def option_type_def validate_loop_lookup)

lemma option_type_6: "option_type 6 = Some [ADDRIPV4, ARRAY]"
  by (simp add: option_type_def dhcp_opts_def mk_opt_def IPV4A_def)

lemma option_type_51: "option_type 51 = Some [UINT32, REQUEST]"
  by (simp add: option_type_def dhcp_opts_def mk_opt_def IPV4A_def)

lemma option_type_200: "option_type 200 = None"
  by (simp add: option_type_def dhcp_opts_def mk_opt_def IPV4A_def)

text \<open>
  C7. For every option code \<open>c\<close> and collected length \<open>dl\<close>, \<^verbatim>\<open>validate_length\<close> returns
  Invalid (\<open>-1\<close>) when \<open>dl = 0\<close>; for a code of type ADDRIPV4|ARRAY, Invalid when
  \<open>dl < 4\<close> and otherwise \<open>dl\<close> truncated down to a multiple of 4; for a scalar code of
  width \<open>w\<close> (4, 2 or 1), Invalid when \<open>dl < w\<close> and otherwise exactly \<open>w\<close>; and a
  non-zero \<open>dl\<close> unchanged for a code that is not in the option table.
\<close>

theorem validate_length_rules:
  "(dl = 0 \<longrightarrow> validate_length c dl = - 1) \<and>
   (\<forall>t. option_type c = Some t \<and> is_ipv4_array t \<longrightarrow>
      validate_length c dl = (if dl < 4 then - 1 else dl - dl mod 4)) \<and>
   (\<forall>t w. option_type c = Some t \<and> scalar_width t = Some w \<longrightarrow>
      w \<in> {4, 2, 1} \<and> validate_length c dl = (if dl < w then - 1 else w)) \<and>
   (option_type c = None \<and> dl \<noteq> 0 \<longrightarrow> validate_length c dl = dl)"
proof (intro conjI allI impI)
  show "validate_length c dl = - 1" if "dl = 0"
    using that by (simp add: validate_length_def)
next
  fix t assume "option_type c = Some t \<and> is_ipv4_array t"
  then show "validate_length c dl = (if dl < 4 then - 1 else dl - dl mod 4)"
    by (simp add: validate_length_lookup validate_entry_ipv4_array is_ipv4_array_def)
next
  fix t w assume "option_type c = Some t \<and> scalar_width t = Some w"
  then show "w \<in> {4, 2, 1}"
    by (auto simp: scalar_width_def split: if_splits)
next
  fix t w assume h: "option_type c = Some t \<and> scalar_width t = Some w"
  then have "0 < w"
    by (auto simp: scalar_width_def split: if_splits)
  with h show "validate_length c dl = (if dl < w then - 1 else w)"
    by (simp add: validate_length_lookup validate_entry_scalar)
next
  assume "option_type c = None \<and> dl \<noteq> 0"
  then show "validate_length c dl = dl"
    by (simp add: validate_length_lookup)
qed

theorem validate_length_rules_witness:
  "validate_length 6 0 = - 1 \<and> validate_length 6 3 = - 1 \<and> validate_length 6 10 = 8 \<and>
   validate_length 51 3 = - 1 \<and> validate_length 51 6 = 4 \<and> validate_length 200 7 = 7"
proof -
  have a: "is_ipv4_array [ADDRIPV4, ARRAY]"
    by (auto simp: is_ipv4_array_def)
  have s: "scalar_width [UINT32, REQUEST] = Some 4"
    by (auto simp: scalar_width_def)
  have "validate_length 6 0 = - 1"
    using validate_length_rules [of 0 6] by simp
  moreover have "validate_length 6 3 = - 1"
    using validate_length_rules [of 3 6] option_type_6 a by simp
  moreover have "validate_length 6 10 = 8"
    using validate_length_rules [of 10 6] option_type_6 a by simp
  moreover have "validate_length 51 3 = - 1"
    using validate_length_rules [of 3 51] option_type_51 s by simp
  moreover have "validate_length 51 6 = 4"
    using validate_length_rules [of 6 51] option_type_51 s by simp
  moreover have "validate_length 200 7 = 7"
    using validate_length_rules [of 7 200] option_type_200 by simp
  ultimately show ?thesis by simp
qed

subsection \<open>get_option on a well-formed options area\<close>

lemma rd_at: "rd (pre @ x # rest) (length pre) = Some x"
  by (simp add: rd_def)

lemma rd_at1: "rd (pre @ x # y # rest) (Suc (length pre)) = Some y"
  by (simp add: rd_def nth_append)

lemma unat_of_nat_len: "n \<le> 255 \<Longrightarrow> unat (of_nat n :: u8) = n"
  by (simp add: unat_of_nat)

lemma uint_of_nat_len: "n \<le> 255 \<Longrightarrow> uint (of_nat n :: u8) = int n"
  by (metis unat_of_nat_len uint_nat)

lemma step_pad:
  assumes "m = pre @ DHO_PAD # rest" "s_p s = length pre" "c \<noteq> DHO_PAD"
  shows "scan_step m c s = Next (s\<lparr>s_p := length pre + 1\<rparr>)"
  using assms by (simp add: scan_step_def scan_switch_def rd_at)

lemma step_end:
  assumes "m = pre @ DHO_END # rest" "s_p s = length pre" "c \<noteq> DHO_END" "s_overl s = 0"
  shows "scan_step m c s = Exit (s\<lparr>s_p := length pre + 1\<rparr>)"
  using assms by (simp add: scan_step_def scan_switch_def rd_at DHO_END_def DHO_PAD_def)

lemma step_other:
  assumes "m = pre @ c' # of_nat (length v) # v @ rest" "s_p s = length pre"
    "c' \<noteq> c" "c' \<noteq> DHO_PAD" "c' \<noteq> DHO_END" "c' \<noteq> DHO_OPTIONSOVERLOADED"
    "length v \<le> 255"
  shows "scan_step m c s = Next (s\<lparr>s_p := length pre + 2 + length v\<rparr>)"
  using assms by (simp add: scan_step_def scan_switch_def rd_at rd_at1 skip_def unat_of_nat_len)

lemma copy_segment_p [simp]: "copy_segment m (s\<lparr>s_p := q\<rparr>) a = copy_segment m s a"
  by (simp add: copy_segment_def)

lemma collect_match:
  assumes m: "m = pre @ c # of_nat (length v) # v @ rest" and p: "s_p s = length pre"
    and len: "length v \<le> 255" and inv: "acc_inv m s acc"
  shows "\<exists>s2. collect m (s\<lparr>s_p := s_p s + 1\<rparr>) = Some s2 \<and> s_p s2 = length pre + 1 \<and>
           s_e s2 = s_e s \<and> s_overl s2 = s_overl s \<and>
           acc_inv m (s2\<lparr>s_p := length pre + 2 + length v\<rparr>) (acc @ v)"
proof -
  have r: "rd m (length pre + 1) = Some (of_nat (length v))"
    using m by (simp add: rd_at1)
  have tk: "take (length v) (drop (length pre + 2) m) = v"
    using m by simp
  have lm: "length pre + 2 + length v \<le> length m"
    using m by simp
  show ?thesis
  proof (cases "s_op s")
    case None
    with inv have b: "s_bp s = None" "acc = []" "s_bl s = 0"
      by (auto simp: acc_inv_def)
    show ?thesis
      using None b r tk lm p len
      by (simp add: collect_def acc_inv_def unat_of_nat_len uint_of_nat_len)
  next
    case (Some a)
    define buf where "buf = (case s_bp s of None \<Rightarrow> [] | Some b \<Rightarrow> b)"
    from inv Some have i: "a + unat (s_ol s) \<le> s_p s" "s_p s \<le> length m"
      "acc = buf @ take (unat (s_ol s)) (drop a m)" "s_bl s = int (length acc)"
      "length acc \<le> s_p s"
      by (auto simp: acc_inv_def buf_def)
    have la: "length acc = length buf + unat (s_ol s)"
      using i by simp
    have cp: "copy_segment m s a = Some acc"
      using i la by (simp add: copy_segment_def buf_def [symmetric] Let_def)
    show ?thesis
      using Some cp r tk lm p len i
      by (simp add: collect_def acc_inv_def unat_of_nat_len uint_of_nat_len)
  qed
qed

lemma step_match:
  assumes m: "m = pre @ c # of_nat (length v) # v @ rest" and p: "s_p s = length pre"
    and c: "c \<noteq> DHO_PAD" "c \<noteq> DHO_END" "c \<noteq> DHO_OPTIONSOVERLOADED"
    and len: "length v \<le> 255" and inv: "acc_inv m s acc"
  shows "\<exists>s'. scan_step m c s = Next s' \<and> s_p s' = length pre + 2 + length v \<and>
           s_e s' = s_e s \<and> s_overl s' = s_overl s \<and> acc_inv m s' (acc @ v)"
proof -
  from collect_match [OF m p len inv] obtain s2 where
    s2: "collect m (s\<lparr>s_p := s_p s + 1\<rparr>) = Some s2" "s_p s2 = length pre + 1"
      "s_e s2 = s_e s" "s_overl s2 = s_overl s"
      "acc_inv m (s2\<lparr>s_p := length pre + 2 + length v\<rparr>) (acc @ v)"
    by blast
  have r: "rd m (length pre + 1) = Some (of_nat (length v))"
    using m by (simp add: rd_at1)
  have "scan_step m c s = Next (s2\<lparr>s_p := length pre + 2 + length v\<rparr>)"
    using m p c s2 r len
    by (simp add: scan_step_def scan_switch_def rd_at skip_def unat_of_nat_len)
  with s2 show ?thesis by simp
qed

lemma acc_inv_advance:
  "acc_inv m s acc \<Longrightarrow> s_p s \<le> q \<Longrightarrow> q \<le> length m \<Longrightarrow> acc_inv m (s\<lparr>s_p := q\<rparr>) acc"
  by (auto simp: acc_inv_def split: option.splits)

lemma scan_loop_items:
  assumes "list_all valid_item its" "\<not> has_segment DHO_OPTIONSOVERLOADED its"
    "c \<noteq> DHO_PAD" "c \<noteq> DHO_END"
    "tail = [] \<or> (\<exists>r. tail = DHO_END # r)"
    "m = pre @ encode_all its @ tail" "s_p s = length pre" "s_e s = length m"
    "s_overl s = 0" "acc_inv m s acc"
  shows "\<exists>s'. scan_loop m c s = Some (Some s') \<and> acc_inv m s' (acc @ segment_values c its)"
  using assms
proof (induction its arbitrary: pre s acc)
  case Nil
  from Nil.prems(5) show ?case
  proof
    assume "tail = []"
    with Nil.prems show ?thesis
      by (subst scan_loop.simps) (simp add: encode_all_def segment_values_def)
  next
    assume "\<exists>r. tail = DHO_END # r"
    then obtain r where r: "tail = DHO_END # r" ..
    with Nil.prems have m: "m = pre @ DHO_END # r" by (simp add: encode_all_def)
    have st: "scan_step m c s = Exit (s\<lparr>s_p := length pre + 1\<rparr>)"
      using step_end [OF m] Nil.prems by simp
    have lm: "length m = length pre + 1 + length r"
      using m by simp
    have "acc_inv m (s\<lparr>s_p := length pre + 1\<rparr>) acc"
      using Nil.prems(7,10) lm by (intro acc_inv_advance) simp_all
    moreover have "s_p s < s_e s"
      using Nil.prems(7,8) lm by simp
    ultimately show ?thesis
      using st by (subst scan_loop.simps) (simp add: segment_values_def)
  qed
next
  case (Cons it its)
  have rest: "list_all valid_item its" "\<not> has_segment DHO_OPTIONSOVERLOADED its"
    using Cons.prems by (auto simp: has_segment_def)
  show ?case
  proof (cases it)
    case Pad
    have m: "m = pre @ DHO_PAD # (encode_all its @ tail)"
      using Cons.prems Pad by (simp add: encode_all_def)
    let ?s = "s\<lparr>s_p := length pre + 1\<rparr>"
    have st: "scan_step m c s = Next ?s"
      using step_pad [OF m] Cons.prems by simp
    have inv: "acc_inv m ?s acc"
      using Cons.prems m by (intro acc_inv_advance) simp_all
    have "\<exists>s'. scan_loop m c ?s = Some (Some s') \<and> acc_inv m s' (acc @ segment_values c its)"
      using Cons.prems rest m inv
      by (intro Cons.IH [where pre = "pre @ [DHO_PAD]"]) simp_all
    moreover have "length pre < length m"
      using m by simp
    then have "s_p s < s_e s"
      using Cons.prems(7,8) by simp
    then have "scan_loop m c s = scan_loop m c ?s"
      using st by (subst scan_loop.simps) simp
    moreover have "segment_values c (it # its) = segment_values c its"
      using Pad by (simp add: segment_values_def)
    ultimately show ?thesis by simp
  next
    case (Tlv c' v)
    have v: "c' \<noteq> DHO_PAD" "c' \<noteq> DHO_END" "length v \<le> 255"
      "c' \<noteq> DHO_OPTIONSOVERLOADED"
      using Cons.prems Tlv by (auto simp: has_segment_def)
    have m: "m = pre @ c' # of_nat (length v) # v @ (encode_all its @ tail)"
      using Cons.prems Tlv by (simp add: encode_all_def)
    have m': "m = (pre @ c' # of_nat (length v) # v) @ encode_all its @ tail"
      using m by simp
    have "length pre < length m"
      using m by simp
    then have lt: "s_p s < s_e s"
      using Cons.prems(7,8) by simp
    show ?thesis
    proof (cases "c' = c")
      case True
      from step_match [OF m [unfolded True] Cons.prems(7) Cons.prems(3,4) v(4) [unfolded True] v(3) Cons.prems(10)]
      obtain s1 where s1: "scan_step m c s = Next s1" "s_p s1 = length pre + 2 + length v"
        "s_e s1 = s_e s" "s_overl s1 = s_overl s" "acc_inv m s1 (acc @ v)"
        by blast
      have "\<exists>s'. scan_loop m c s1 = Some (Some s') \<and>
              acc_inv m s' ((acc @ v) @ segment_values c its)"
        using Cons.prems rest m' s1
        by (intro Cons.IH [where pre = "pre @ c' # of_nat (length v) # v"]) simp_all
      moreover have "scan_loop m c s = scan_loop m c s1"
        using s1 lt by (subst scan_loop.simps) simp
      moreover have "segment_values c (it # its) = v @ segment_values c its"
        using Tlv True by (simp add: segment_values_def)
      ultimately show ?thesis by simp
    next
      case False
      let ?s = "s\<lparr>s_p := length pre + 2 + length v\<rparr>"
      have st: "scan_step m c s = Next ?s"
        using step_other [OF m Cons.prems(7) False v(1,2,4,3)] .
      have inv: "acc_inv m ?s acc"
        using Cons.prems m by (intro acc_inv_advance) simp_all
      have "\<exists>s'. scan_loop m c ?s = Some (Some s') \<and>
              acc_inv m s' (acc @ segment_values c its)"
        using Cons.prems rest m' inv
        by (intro Cons.IH [where pre = "pre @ c' # of_nat (length v) # v"]) simp_all
      moreover have "scan_loop m c s = scan_loop m c ?s"
        using st lt by (subst scan_loop.simps) simp
      moreover have "segment_values c (it # its) = segment_values c its"
        using Tlv False by (simp add: segment_values_def)
      ultimately show ?thesis by simp
    qed
  qed
qed


lemma validate_entry_le: "0 < dl \<Longrightarrow> validate_entry t dl \<le> dl"
  by (auto simp: validate_entry_def Let_def)

lemma validate_entry_ge: "0 < dl \<Longrightarrow> - 1 \<le> validate_entry t dl"
  by (auto simp: validate_entry_def Let_def)

lemma validate_length_le: "0 \<le> dl \<Longrightarrow> validate_length c dl \<le> dl"
  by (auto simp: validate_length_lookup validate_entry_le split: option.splits)

lemma validate_length_ge: "0 \<le> dl \<Longrightarrow> - 1 \<le> validate_length c dl"
  by (auto simp: validate_length_lookup validate_entry_ge split: option.splits)

lemma exit_data:
  assumes inv: "acc_inv m s v"
  shows "(case get_option_exit m c s of
            Overrun \<Rightarrow> Overrun
          | Fail e \<Rightarrow> Fail e
          | Ok (q, n) \<Rightarrow> (case deref m q (nat n) of None \<Rightarrow> Overrun | Some d \<Rightarrow> Ok d))
         = returned c v"
proof -
  define n where "n = validate_length c (int (length v))"
  have bl: "s_bl s = int (length v)" using inv by (simp add: acc_inv_def)
  have nle: "n \<le> int (length v)" unfolding n_def by (rule validate_length_le) simp
  show ?thesis
  proof (cases "n = - 1")
    case True
    then show ?thesis
      by (simp add: get_option_exit_def returned_def bl n_def [symmetric])
  next
    case False
    have "v \<noteq> []"
    proof
      assume "v = []"
      then have "n = - 1" by (simp add: n_def validate_length_def)
      with False show False by simp
    qed
    then obtain a where a: "s_op s = Some a"
      using inv by (auto simp: acc_inv_def split: option.splits)
    define buf where "buf = (case s_bp s of None \<Rightarrow> [] | Some b \<Rightarrow> b)"
    from inv a have i: "a + unat (s_ol s) \<le> s_p s" "s_p s \<le> length m"
      "v = buf @ take (unat (s_ol s)) (drop a m)"
      by (auto simp: acc_inv_def buf_def)
    have lv: "length v = length buf + unat (s_ol s)" "length v \<le> length m"
      using i inv by (auto simp: acc_inv_def)
    have cp: "copy_segment m s a = Some v"
      using i lv by (simp add: copy_segment_def buf_def [symmetric] Let_def)
    show ?thesis
    proof (cases "s_bp s")
      case None
      then have "buf = []" by (simp add: buf_def)
      with i lv have v: "v = take (unat (s_ol s)) (drop a m)" "length v = unat (s_ol s)"
        by simp_all
      have "a + nat n \<le> length m" using nle i v by linarith
      moreover have "nat n \<le> unat (s_ol s)"
        using nle v by linarith
      then have "take (nat n) (drop a m) = take (nat n) v"
        by (subst v(1)) (simp add: min_absorb1)
      ultimately show ?thesis
        using False None a
        by (simp add: get_option_exit_def returned_def bl n_def [symmetric] deref_def)
    next
      case (Some b)
      have "nat n \<le> length v" using nle by simp
      then show ?thesis
        using False Some a cp
        by (simp add: get_option_exit_def returned_def bl n_def [symmetric] deref_def)
    qed
  qed
qed

lemma get_option_data_exit:
  "get_option_data m c =
     (case scan_loop m c (scan_init m) of
        None \<Rightarrow> None
      | Some None \<Rightarrow> Some Overrun
      | Some (Some s) \<Rightarrow>
          Some (case get_option_exit m c s of
                  Overrun \<Rightarrow> Overrun
                | Fail e \<Rightarrow> Fail e
                | Ok (q, n) \<Rightarrow>
                    (case deref m q (nat n) of None \<Rightarrow> Overrun | Some d \<Rightarrow> Ok d)))"
  by (simp add: get_option_data_def get_option_def split: option.splits res.splits)

lemma get_option_data_items:
  assumes "length hdr = OPTIONS_OFF" "list_all valid_item its"
    "\<not> has_segment DHO_OPTIONSOVERLOADED its"
    "c \<noteq> DHO_PAD" "c \<noteq> DHO_END"
    "tail = [] \<or> (\<exists>r. tail = DHO_END # r)"
  shows "get_option_data (hdr @ encode_all its @ tail) c = Some (returned c (segment_values c its))"
proof -
  define m where "m = hdr @ encode_all its @ tail"
  have i: "acc_inv m (scan_init m) []"
    using assms(1) by (simp add: acc_inv_def scan_init_def m_def)
  have "\<exists>s'. scan_loop m c (scan_init m) = Some (Some s') \<and>
          acc_inv m s' ([] @ segment_values c its)"
    using assms i
    by (intro scan_loop_items [where pre = hdr and tail = tail])
       (simp_all add: scan_init_def m_def)
  then obtain s' where s': "scan_loop m c (scan_init m) = Some (Some s')"
    "acc_inv m s' (segment_values c its)" by auto
  show ?thesis
    unfolding m_def [symmetric]
    by (simp add: get_option_data_exit s' exit_data [OF s'(2)])
qed


lemma returned_absent: "returned c [] = Fail EINVAL"
  by (simp add: returned_def validate_length_def)

lemma segment_values_absent: "\<not> has_segment c its \<Longrightarrow> segment_values c its = []"
  by (induction its) (auto simp: has_segment_def segment_values_def)

lemma validate_length_43_8: "validate_length 43 8 = 8"
  by (simp add: validate_length_def dhcp_opts_def mk_opt_def IPV4A_def validate_entry_def
      has_flag_def)

lemma validate_length_mask_2: "validate_length DHO_SUBNETMASK 2 = - 1"
  by (simp add: validate_length_def dhcp_opts_def mk_opt_def IPV4A_def validate_entry_def
      has_flag_def DHO_SUBNETMASK_def)

text \<open>
  C1 (amended). Let the options area of a message be the octets of a list of options
  (PAD octets and segments), none of them the overload option 52, followed by END or
  by the end of the area, and let \<open>c\<close> be a code other than PAD and END. If the area has
  a segment of code \<open>c\<close>, \<^verbatim>\<open>get_option\<close> returns Invalid when \<^verbatim>\<open>validate_length\<close> rejects
  the total length of the values of the segments of code \<open>c\<close>, and otherwise the first
  octets, as many as \<^verbatim>\<open>validate_length\<close> allows, of the concatenation of these values in
  their order of appearance. If the area has no segment of code \<open>c\<close>, it returns NULL.
\<close>

theorem get_option_concatenates:
  assumes "length hdr = OPTIONS_OFF" "list_all valid_item its"
    "\<not> has_segment DHO_OPTIONSOVERLOADED its"
    "c \<noteq> DHO_PAD" "c \<noteq> DHO_END"
    "tail = [] \<or> (\<exists>r. tail = DHO_END # r)"
  shows "(has_segment c its \<longrightarrow>
           get_option_data (hdr @ encode_all its @ tail) c =
             Some (returned c (segment_values c its))) \<and>
         (\<not> has_segment c its \<longrightarrow>
           (\<exists>e. get_option_data (hdr @ encode_all its @ tail) c = Some (Fail e)))"
proof -
  have d: "get_option_data (hdr @ encode_all its @ tail) c =
      Some (returned c (segment_values c its))"
    using assms by (rule get_option_data_items)
  moreover have "\<exists>e. get_option_data (hdr @ encode_all its @ tail) c = Some (Fail e)"
    if "\<not> has_segment c its"
    using that d by (simp add: segment_values_absent returned_absent)
  ultimately show ?thesis by blast
qed

theorem get_option_concatenates_witness:
  "get_option_data
     (replicate 236 0 @ [0x63, 0x82, 0x53, 0x63] @
        [43, 4, 0xaa, 0xaa, 0xaa, 0xaa, 43, 4, 0xbb, 0xbb, 0xbb, 0xbb, 0xff]) 43
   = Some (Ok [0xaa, 0xaa, 0xaa, 0xaa, 0xbb, 0xbb, 0xbb, 0xbb]) \<and>
   (\<exists>e. get_option_data
     (replicate 236 0 @ [0x63, 0x82, 0x53, 0x63] @
        [43, 4, 0xaa, 0xaa, 0xaa, 0xaa, 43, 4, 0xbb, 0xbb, 0xbb, 0xbb, 0xff]) 54
      = Some (Fail e))"
proof -
  let ?hdr = "replicate 236 0 @ [0x63, 0x82, 0x53, 0x63 :: u8]"
  let ?its = "[Tlv 43 [0xaa, 0xaa, 0xaa, 0xaa], Tlv 43 [0xbb, 0xbb, 0xbb, 0xbb]]"
  have h: "length ?hdr = OPTIONS_OFF" "list_all valid_item ?its"
    "\<not> has_segment DHO_OPTIONSOVERLOADED ?its"
    "(43 :: u8) \<noteq> DHO_PAD" "(43 :: u8) \<noteq> DHO_END"
    "(54 :: u8) \<noteq> DHO_PAD" "(54 :: u8) \<noteq> DHO_END"
    "[DHO_END] = [] \<or> (\<exists>r. [DHO_END] = DHO_END # r)"
    by (simp_all add: OPTIONS_OFF_def DHO_PAD_def DHO_END_def DHO_OPTIONSOVERLOADED_def
        has_segment_def)
  have e: "?hdr @ encode_all ?its @ [DHO_END] =
     replicate 236 0 @ [0x63, 0x82, 0x53, 0x63] @
        [43, 4, 0xaa, 0xaa, 0xaa, 0xaa, 43, 4, 0xbb, 0xbb, 0xbb, 0xbb, 0xff]"
    by (simp add: encode_all_def DHO_END_def)
  have s: "has_segment 43 ?its" "\<not> has_segment 54 ?its"
    "segment_values 43 ?its = [0xaa, 0xaa, 0xaa, 0xaa, 0xbb, 0xbb, 0xbb, 0xbb]"
    by (simp_all add: has_segment_def segment_values_def)
  have r: "returned 43 [0xaa, 0xaa, 0xaa, 0xaa, 0xbb, 0xbb, 0xbb, 0xbb] =
      Ok [0xaa, 0xaa, 0xaa, 0xaa, 0xbb, 0xbb, 0xbb, 0xbb]"
    by (simp add: returned_def validate_length_43_8)
  show ?thesis
    using get_option_concatenates [OF h(1,2,3,4,5,8)]
      get_option_concatenates [OF h(1,2,3,6,7,8)] s r
    unfolding e by simp
qed

text \<open>
  The claim C1 as stated fails for \<open>short_mask_msg\<close>: its options area is one segment of
  code 1 with the value ff ff, followed by END and PAD octets, and \<^verbatim>\<open>get_option\<close> for the
  code 1 returns NULL with EINVAL, not the value.
\<close>

theorem get_option_short_mask:
  "options_area short_mask_msg =
     encode_all [Tlv DHO_SUBNETMASK [0xff, 0xff]] @ DHO_END # replicate 303 0 \<and>
   segment_values DHO_SUBNETMASK [Tlv DHO_SUBNETMASK [0xff, 0xff]] = [0xff, 0xff] \<and>
   get_option_data short_mask_msg DHO_SUBNETMASK = Some (Fail EINVAL)"
proof -
  let ?hdr = "replicate 236 0 @ [0x63, 0x82, 0x53, 0x63 :: u8]"
  let ?its = "[Tlv DHO_SUBNETMASK [0xff, 0xff]]"
  have m: "short_mask_msg = ?hdr @ encode_all ?its @ DHO_END # replicate 303 0"
    by (simp add: short_mask_msg_def mk_message_def pad_to_def encode_all_def
        DHO_SUBNETMASK_def DHO_END_def replicate_add [symmetric])
  have a: "options_area short_mask_msg = encode_all ?its @ DHO_END # replicate 303 0"
    unfolding m by (simp add: options_area_def OPTIONS_OFF_def)
  have v: "segment_values DHO_SUBNETMASK ?its = [0xff, 0xff]"
    by (simp add: segment_values_def)
  have "get_option_data short_mask_msg DHO_SUBNETMASK =
      Some (returned DHO_SUBNETMASK (segment_values DHO_SUBNETMASK ?its))"
    unfolding m
    by (rule get_option_data_items)
       (simp_all add: OPTIONS_OFF_def DHO_PAD_def DHO_END_def DHO_OPTIONSOVERLOADED_def
          DHO_SUBNETMASK_def has_segment_def)
  then have "get_option_data short_mask_msg DHO_SUBNETMASK = Some (Fail EINVAL)"
    unfolding v by (simp add: returned_def validate_length_mask_2)
  with a v show ?thesis by simp
qed

subsection \<open>write_lease\<close>

lemma write_lease_scan_items:
  assumes "list_all valid_item its"
  shows "write_lease_scan (pre @ encode_all its @ DHO_END # rest) (length pre)
           (length (pre @ encode_all its @ DHO_END # rest))
         = Some (length pre + length (encode_all its))"
  using assms
proof (induction its arbitrary: pre)
  case Nil
  show ?case
    by (subst write_lease_scan.simps) (simp add: encode_all_def rd_at)
next
  case (Cons it its)
  show ?case
  proof (cases it)
    case Pad
    have "write_lease_scan ((pre @ [DHO_PAD]) @ encode_all its @ DHO_END # rest)
            (length (pre @ [DHO_PAD]))
            (length ((pre @ [DHO_PAD]) @ encode_all its @ DHO_END # rest))
          = Some (length (pre @ [DHO_PAD]) + length (encode_all its))"
      using Cons.prems by (intro Cons.IH) simp
    then show ?thesis using Pad
      by (subst write_lease_scan.simps)
         (simp add: encode_all_def rd_at DHO_PAD_def DHO_END_def)
  next
    case (Tlv c v)
    let ?pre = "pre @ c # of_nat (length v) # v"
    have v: "c \<noteq> DHO_PAD" "c \<noteq> DHO_END" "length v \<le> 255"
      using Cons.prems Tlv by auto
    have "write_lease_scan (?pre @ encode_all its @ DHO_END # rest) (length ?pre)
            (length (?pre @ encode_all its @ DHO_END # rest))
          = Some (length ?pre + length (encode_all its))"
      using Cons.prems by (intro Cons.IH) simp
    then show ?thesis using Tlv v
      by (subst write_lease_scan.simps)
         (simp add: encode_all_def rd_at rd_at1 unat_of_nat_len)
  qed
qed

text \<open>
  C3 (amended). For every BOOTP message (\<^verbatim>\<open>is_bootp\<close> holds) \<^verbatim>\<open>write_lease\<close> writes nothing
  and unlinks the lease file. For every other message whose options area is a sequence
  of well-formed options followed by END, when the lease file can be opened,
  \<^verbatim>\<open>write_lease\<close> writes exactly the octets of the message from offset 0 up to, and not
  including, that END option: the number of octets written is the offset of END.
\<close>

theorem write_lease_up_to_end:
  "write_lease True opened m = Ok Unlinked \<and>
   (length hdr = OPTIONS_OFF \<and> list_all valid_item its \<longrightarrow>
      write_lease False True (hdr @ encode_all its @ DHO_END # rest)
        = Ok (Written (hdr @ encode_all its)))"
proof (intro conjI impI)
  show "write_lease True opened m = Ok Unlinked"
    by (simp add: write_lease_def)
next
  assume h: "length hdr = OPTIONS_OFF \<and> list_all valid_item its"
  let ?m = "hdr @ encode_all its @ DHO_END # rest"
  have e: "OPTIONS_OFF + (length ?m - OPTIONS_OFF) = length ?m"
    using h by simp
  have "write_lease_scan ?m OPTIONS_OFF (length ?m) = Some (length hdr + length (encode_all its))"
    using write_lease_scan_items [of its hdr rest] h by simp
  then show "write_lease False True ?m = Ok (Written (hdr @ encode_all its))"
    unfolding write_lease_def e by simp
qed

theorem write_lease_up_to_end_witness:
  "write_lease True False [] = Ok Unlinked \<and>
   write_lease False True
     (replicate 236 0 @ [0x63, 0x82, 0x53, 0x63] @ [53, 1, 5, 0, 0xff, 0, 0])
     = Ok (Written (replicate 236 0 @ [0x63, 0x82, 0x53, 0x63] @ [53, 1, 5, 0]))"
  using write_lease_up_to_end [of False "[]" "replicate 236 0 @ [0x63, 0x82, 0x53, 0x63]"
      "[Tlv 53 [5], Pad]" "[0, 0]"]
  by (simp add: encode_all_def OPTIONS_OFF_def DHO_PAD_def DHO_END_def)

text \<open>
  The claim C3 as stated fails for \<open>ack_msg\<close>: the END option is at the offset 243, and
  the octets written are the 243 octets before it, not the 244 octets through it.
\<close>

theorem write_lease_ack_msg:
  "rd ack_msg 243 = Some DHO_END \<and>
   write_lease False True ack_msg = Ok (Written (take 243 ack_msg)) \<and>
   length (take 243 ack_msg) = 243 \<and>
   write_lease False True ack_msg \<noteq> Ok (Written (take (243 + 1) ack_msg))"
proof -
  let ?hdr = "replicate 236 0 @ [0x63, 0x82, 0x53, 0x63 :: u8]"
  let ?its = "[Tlv 53 [5]]"
  have m: "ack_msg = ?hdr @ encode_all ?its @ DHO_END # replicate 304 0"
    by (simp add: ack_msg_def mk_message_def pad_to_def encode_all_def
        DHO_END_def replicate_add [symmetric])
  have l: "length ack_msg = 548"
    by (simp add: m encode_all_def)
  have r: "rd ack_msg 243 = Some DHO_END"
    unfolding m by (simp add: rd_def encode_all_def nth_append)
  have t: "take 243 ack_msg = ?hdr @ encode_all ?its"
    unfolding m by (simp add: encode_all_def)
  have w: "write_lease False True ack_msg = Ok (Written (?hdr @ encode_all ?its))"
    unfolding m
    using write_lease_scan_items [of ?its ?hdr "replicate 304 0"]
    by (simp add: write_lease_def OPTIONS_OFF_def encode_all_def DHO_END_def DHO_PAD_def)
  have n: "take 243 ack_msg \<noteq> take (243 + 1) ack_msg"
  proof
    assume "take 243 ack_msg = take (243 + 1) ack_msg"
    then have "length (take 243 ack_msg) = length (take (243 + 1) ack_msg)" by simp
    then show False by (simp add: l)
  qed
  have k: "length (take 243 ack_msg) = 243"
    by (simp add: l)
  have "write_lease False True ack_msg = Ok (Written (take 243 ack_msg))"
    using w t by simp
  with r n k show ?thesis by simp
qed

subsection \<open>The overload option inside an overload area\<close>

lemma rescan_rd:
  "rd rescan_msg 240 = Some 52" "rd rescan_msg 241 = Some 1" "rd rescan_msg 242 = Some 1"
  "rd rescan_msg 243 = Some 255" "rd rescan_msg 108 = Some 0" "rd rescan_msg 109 = Some 52"
  "rd rescan_msg 110 = Some 1" "rd rescan_msg 111 = Some 1" "rd rescan_msg 112 = Some 255"
  by (simp_all add: rescan_msg_def mk_message_def pad_to_def rd_def nth_append)

lemma rescan_len: "length rescan_msg = 548"
  by (simp add: rescan_msg_def mk_message_def pad_to_def)

lemma rescan_step:
  assumes "in_file s"
  shows "\<exists>s'. scan_step rescan_msg DHO_MESSAGETYPE s = Next s' \<and> in_file s'"
proof -
  from assms consider (a) "s_e s = 236" "s_p s = 109" "s_overl s = 0"
    | (b) "s_e s = 236" "s_p s = 112" "s_overl s = 1"
    by (auto simp: in_file_def)
  then show ?thesis
  proof cases
    case a
    then show ?thesis
      by (simp add: scan_step_def scan_switch_def skip_def rescan_rd in_file_def
          DHO_MESSAGETYPE_def DHO_PAD_def DHO_END_def DHO_OPTIONSOVERLOADED_def)
  next
    case b
    then show ?thesis
      by (simp add: scan_step_def scan_switch_def skip_def rescan_rd in_file_def
          DHO_MESSAGETYPE_def DHO_PAD_def DHO_END_def DHO_OPTIONSOVERLOADED_def
          BOOTFILE_OFF_def BOOTFILE_LEN_def)
  qed
qed

lemma rescan_never_returns:
  assumes "in_file s"
  shows "scan_loop rescan_msg DHO_MESSAGETYPE s = None"
proof (rule ccontr)
  assume "scan_loop rescan_msg DHO_MESSAGETYPE s \<noteq> None"
  then obtain y where y: "scan_loop rescan_msg DHO_MESSAGETYPE s = Some y" by auto
  have "\<not> (rescan_msg = rescan_msg \<and> DHO_MESSAGETYPE = DHO_MESSAGETYPE \<and> in_file s)"
  proof (rule scan_loop.raw_induct
      [where P = "\<lambda>m c s y. \<not> (m = rescan_msg \<and> c = DHO_MESSAGETYPE \<and> in_file s)",
        OF _ y])
    fix loop' :: "dhcp_message \<Rightarrow> u8 \<Rightarrow> scan \<Rightarrow> scan option option" and m c s y
    assume IH: "\<And>m c s y. loop' m c s = Some y \<Longrightarrow>
        \<not> (m = rescan_msg \<and> c = DHO_MESSAGETYPE \<and> in_file s)"
      and body: "(if s_p s < s_e s then
          (case scan_step m c s of Fault \<Rightarrow> Some None | Exit s' \<Rightarrow> Some (Some s')
           | Next s' \<Rightarrow> loop' m c s')
        else Some (Some s)) = Some y"
    show "\<not> (m = rescan_msg \<and> c = DHO_MESSAGETYPE \<and> in_file s)"
    proof
      assume h: "m = rescan_msg \<and> c = DHO_MESSAGETYPE \<and> in_file s"
      then obtain s' where s': "scan_step rescan_msg DHO_MESSAGETYPE s = Next s'" "in_file s'"
        using rescan_step by blast
      have "s_p s < s_e s" using h by (auto simp: in_file_def)
      with body h s' have "loop' rescan_msg DHO_MESSAGETYPE s' = Some y" by simp
      from IH [OF this] s' show False by simp
    qed
  qed
  with assms show False by simp
qed

lemma rescan_enters_file:
  "\<exists>s. in_file s \<and>
     scan_loop rescan_msg DHO_MESSAGETYPE (scan_init rescan_msg) =
     scan_loop rescan_msg DHO_MESSAGETYPE s"
proof -
  let ?s0 = "scan_init rescan_msg"
  let ?s1 = "?s0\<lparr>s_p := 243, s_overl := 1\<rparr>"
  let ?s2 = "?s0\<lparr>s_p := 109, s_e := 236, s_overl := 0\<rparr>"
  have 1: "scan_step rescan_msg DHO_MESSAGETYPE ?s0 = Next ?s1"
    by (simp add: scan_step_def scan_switch_def skip_def rescan_rd scan_init_def
        OPTIONS_OFF_def
        DHO_MESSAGETYPE_def DHO_PAD_def DHO_END_def DHO_OPTIONSOVERLOADED_def)
  have 2: "scan_step rescan_msg DHO_MESSAGETYPE ?s1 = Next ?s2"
    by (simp add: scan_step_def scan_switch_def skip_def rescan_rd scan_init_def
        OPTIONS_OFF_def BOOTFILE_OFF_def BOOTFILE_LEN_def
        DHO_MESSAGETYPE_def DHO_PAD_def DHO_END_def DHO_OPTIONSOVERLOADED_def)
  have "scan_loop rescan_msg DHO_MESSAGETYPE ?s0 = scan_loop rescan_msg DHO_MESSAGETYPE ?s1"
    using 1 by (subst scan_loop.simps) (simp add: scan_init_def OPTIONS_OFF_def rescan_len)
  also have "\<dots> = scan_loop rescan_msg DHO_MESSAGETYPE ?s2"
    using 2 by (subst scan_loop.simps) (simp add: scan_init_def OPTIONS_OFF_def rescan_len)
  finally have "scan_loop rescan_msg DHO_MESSAGETYPE ?s0 = scan_loop rescan_msg DHO_MESSAGETYPE ?s2" .
  moreover have "in_file ?s2" by (simp add: in_file_def)
  ultimately show ?thesis by blast
qed

text \<open>
  C8 (a defect of the code). For \<open>rescan_msg\<close> the scan honours the overload option of
  the options area, enters the bootfile field with \<^verbatim>\<open>overl\<close> cleared to 0, honours the
  overload option there again, and at the END of the field enters the field again, and
  so on: the lookup of the message type never returns. For \<open>nested_msg\<close> the overload
  option of the options area names the bootfile field only, and the option 43 is found
  in the servername field, which only the overload option inside the bootfile field
  names.
\<close>

theorem get_option_rescans:
  "get_option rescan_msg DHO_MESSAGETYPE = None \<and>
   get_option_data nested_msg 43 = Some (Ok [9])"
proof
  from rescan_enters_file obtain s where "in_file s"
    "scan_loop rescan_msg DHO_MESSAGETYPE (scan_init rescan_msg) =
     scan_loop rescan_msg DHO_MESSAGETYPE s" by blast
  then show "get_option rescan_msg DHO_MESSAGETYPE = None"
    by (simp add: get_option_def rescan_never_returns)
next
  show "get_option_data nested_msg 43 = Some (Ok [9])"
    by code_simp
qed

subsection \<open>The course of the scan does not depend on the code\<close>

lemma step_sim_iff:
  "step_sim x y =
     (x = Fault \<or> y = Fault \<or> (\<exists>s t. x = Exit s \<and> y = Exit t) \<or>
      (\<exists>s t. x = Next s \<and> y = Next t \<and> ctl s = ctl t))"
  by (cases x; cases y) (simp_all add: step_sim.simps)

lemma collect_ctl: "collect m s = Some s2 \<Longrightarrow> ctl s2 = ctl s"
  by (auto simp: collect_def ctl_def split: option.splits)

lemma skip_sim: "ctl s = ctl t \<Longrightarrow> step_sim (skip m s) (skip m t)"
  by (auto simp: skip_def ctl_def step_sim_iff split: option.splits)

lemma scan_switch_sim:
  assumes "ctl s = ctl t"
  shows "step_sim (scan_switch m o' s) (scan_switch m o' t)"
proof -
  have eq: "s_p t = s_p s" "s_e t = s_e s" "s_overl t = s_overl s"
    using assms by (simp_all add: ctl_def)
  have u: "\<And>v p e. ctl (s\<lparr>s_overl := v, s_p := p, s_e := e\<rparr>) = ctl (t\<lparr>s_overl := v, s_p := p, s_e := e\<rparr>)"
    by (simp add: ctl_def)
  have w: "\<And>v. ctl (s\<lparr>s_overl := v\<rparr>) = ctl (t\<lparr>s_overl := v\<rparr>)"
    using eq by (simp add: ctl_def)
  consider (pad) "o' = DHO_PAD" | (fin) "o' \<noteq> DHO_PAD" "o' = DHO_END"
    | (ovl) "o' \<noteq> DHO_PAD" "o' \<noteq> DHO_END" "o' = DHO_OPTIONSOVERLOADED"
    | (other) "o' \<noteq> DHO_PAD" "o' \<noteq> DHO_END" "o' \<noteq> DHO_OPTIONSOVERLOADED"
    by blast
  then show ?thesis
  proof cases
    case pad
    then show ?thesis using assms by (simp add: scan_switch_def step_sim_iff)
  next
    case fin
    then show ?thesis
      using eq skip_sim [OF u] by (simp add: scan_switch_def) (simp add: step_sim_iff)
  next
    case ovl
    show ?thesis
    proof (cases "s_overl s = 0")
      case True
      then show ?thesis
        using ovl eq skip_sim [OF w]
        by (simp add: scan_switch_def split: option.splits) (simp add: step_sim_iff)
    next
      case False
      then show ?thesis
        using ovl eq skip_sim [OF assms] by (simp add: scan_switch_def)
    qed
  next
    case other
    then show ?thesis using skip_sim [OF assms] by (simp add: scan_switch_def)
  qed
qed

lemma scan_step_sim:
  assumes "ctl s = ctl t"
  shows "step_sim (scan_step m c s) (scan_step m c' t)"
proof (cases "rd m (s_p s)")
  case None
  then show ?thesis by (simp add: scan_step_def step_sim_iff)
next
  case (Some o')
  have pt: "s_p t = s_p s" using assms by (simp add: ctl_def)
  define s1 where "s1 = (if o' = c then collect m (s\<lparr>s_p := s_p s + 1\<rparr>) else Some (s\<lparr>s_p := s_p s + 1\<rparr>))"
  define t1 where "t1 = (if o' = c' then collect m (t\<lparr>s_p := s_p t + 1\<rparr>) else Some (t\<lparr>s_p := s_p t + 1\<rparr>))"
  show ?thesis
  proof (cases s1)
    case None
    then show ?thesis using Some by (simp add: scan_step_def s1_def step_sim_iff)
  next
    case s2: (Some s2)
    show ?thesis
    proof (cases t1)
      case None
      then show ?thesis using Some pt by (simp add: scan_step_def t1_def step_sim_iff)
    next
      case t2: (Some t2)
      have c2: "ctl s2 = ctl t2"
        using s2 t2 assms collect_ctl [of m "s\<lparr>s_p := s_p s + 1\<rparr>" s2]
          collect_ctl [of m "t\<lparr>s_p := s_p t + 1\<rparr>" t2]
        by (auto simp: s1_def t1_def ctl_def split: if_splits)
      have "scan_step m c s = scan_switch m o' s2"
        using Some s2 by (simp add: scan_step_def s1_def)
      moreover have "scan_step m c' t = scan_switch m o' t2"
        using Some t2 pt by (simp add: scan_step_def t1_def)
      ultimately show ?thesis using scan_switch_sim [OF c2] by simp
    qed
  qed
qed

lemma scan_loop_returns_any:
  assumes "scan_loop m c s = Some (Some s1)" "ctl t = ctl s"
  shows "scan_loop m c' t \<noteq> None"
proof -
  have "Some s1 \<noteq> None \<longrightarrow> (\<forall>t. ctl t = ctl s \<longrightarrow> scan_loop m c' t \<noteq> None)"
  proof (rule scan_loop.raw_induct
      [where P = "\<lambda>m c s y. y \<noteq> None \<longrightarrow> (\<forall>t. ctl t = ctl s \<longrightarrow> scan_loop m c' t \<noteq> None)",
        OF _ assms(1)])
    fix loop' :: "dhcp_message \<Rightarrow> u8 \<Rightarrow> scan \<Rightarrow> scan option option" and m c s y
    assume IH: "\<And>m c s y. loop' m c s = Some y \<Longrightarrow>
        y \<noteq> None \<longrightarrow> (\<forall>t. ctl t = ctl s \<longrightarrow> scan_loop m c' t \<noteq> None)"
      and body: "(if s_p s < s_e s then
          (case scan_step m c s of Fault \<Rightarrow> Some None | Exit s' \<Rightarrow> Some (Some s')
           | Next s' \<Rightarrow> loop' m c s')
        else Some (Some s)) = Some y"
    show "y \<noteq> None \<longrightarrow> (\<forall>t. ctl t = ctl s \<longrightarrow> scan_loop m c' t \<noteq> None)"
    proof (intro impI allI)
      fix t assume y: "y \<noteq> None" and ct: "ctl t = ctl s"
      have pe: "s_p t = s_p s" "s_e t = s_e s" using ct by (simp_all add: ctl_def)
      show "scan_loop m c' t \<noteq> None"
      proof (cases "s_p s < s_e s")
        case False
        then show ?thesis using pe by (subst scan_loop.simps) simp
      next
        case True
        from scan_step_sim [OF ct [symmetric], of m c c']
        consider (a) "scan_step m c s = Fault" | (b) "scan_step m c' t = Fault"
          | (c) s' t' where "scan_step m c s = Exit s'" "scan_step m c' t = Exit t'"
          | (d) s' t' where "scan_step m c s = Next s'" "scan_step m c' t = Next t'"
              "ctl s' = ctl t'"
          unfolding step_sim_iff by blast
        then show ?thesis
        proof cases
          case a
          with body True y show ?thesis by simp
        next
          case b
          then show ?thesis using True pe by (subst scan_loop.simps) simp
        next
          case c
          then show ?thesis using True pe by (subst scan_loop.simps) simp
        next
          case d
          from body True d have "loop' m c s' = Some y" by simp
          from IH [OF this] y d(3) have "scan_loop m c' t' \<noteq> None" by simp
          then show ?thesis using True pe d by (subst scan_loop.simps) simp
        qed
      qed
    qed
  qed
  with assms(2) show ?thesis by simp
qed

lemma get_option_returns_any:
  assumes "get_option m c = Some r" "r \<noteq> Overrun"
  shows "get_option m c' \<noteq> None"
proof -
  from assms obtain s where "scan_loop m c (scan_init m) = Some (Some s)"
    by (auto simp: get_option_def split: option.splits)
  from scan_loop_returns_any [OF this, of "scan_init m" c']
  have "scan_loop m c' (scan_init m) \<noteq> None" by simp
  then show ?thesis by (auto simp: get_option_def split: option.splits)
qed

subsection \<open>The dispatcher\<close>

lemma list_loop_matches: "list_loop entries a = (if matches entries a then 1 else 0)"
  by (induction entries a rule: list_loop.induct) (auto simp: matches_def)

lemma whitelisted_ip_cases:
  "whitelisted_ip ifo a =
     (if whitelist ifo = [] then - 1 else if matches (whitelist ifo) a then 1 else 0)"
  by (simp add: whitelisted_ip_def list_loop_matches)

lemma blacklisted_ip_cases:
  "blacklisted_ip ifo a = (if matches (blacklist ifo) a then 1 else 0)"
  by (simp add: blacklisted_ip_def list_loop_matches)

text \<open>
  C9 (amended). For every inbound frame with the source address \<open>from\<close>: if a whitelist
  is configured and \<open>from\<close> matches no whitelist entry, the frame is dropped; if no
  whitelist is configured and \<open>from\<close> matches a blacklist entry, the frame is dropped; a
  frame whose source matches a whitelist entry is not checked against the blacklist, and
  neither list drops it.
\<close>

theorem lists_drop_frames:
  "(whitelist (ioptions ifp) \<noteq> [] \<and> \<not> matches (whitelist (ioptions ifp)) from \<longrightarrow>
      dropped (receive_frame ifp buf valid from payload)) \<and>
   (whitelist (ioptions ifp) = [] \<and> matches (blacklist (ioptions ifp)) from \<longrightarrow>
      dropped (receive_frame ifp buf valid from payload)) \<and>
   (matches (whitelist (ioptions ifp)) from \<longrightarrow>
      receive_frame ifp buf valid from payload \<noteq> Not_whitelisted \<and>
      receive_frame ifp buf valid from payload \<noteq> Blacklisted)"
  by (auto simp: receive_frame_def whitelisted_ip_cases blacklisted_ip_cases dropped_def
      matches_def Let_def)

theorem lists_drop_frames_witness:
  "dropped (receive_frame listed (replicate 548 0) True 0x0a000002 (take 300 null_offer)) \<and>
   dropped (receive_frame
      (discovering\<lparr>ioptions := plain_options\<lparr>blacklist := [(0x0a000001, 0xffffffff)]\<rparr>\<rparr>)
      (replicate 548 0) True 0x0a000001 (take 300 null_offer)) \<and>
   receive_frame listed (replicate 548 0) True 0x0a000001 (take 300 null_offer)
     \<noteq> Not_whitelisted \<and>
   receive_frame listed (replicate 548 0) True 0x0a000001 (take 300 null_offer)
     \<noteq> Blacklisted"
  using lists_drop_frames [of listed "0x0a000002" "replicate 548 0" True "take 300 null_offer"]
    lists_drop_frames [of "discovering\<lparr>ioptions := plain_options\<lparr>blacklist := [(0x0a000001, 0xffffffff)]\<rparr>\<rparr>"
      "0x0a000001" "replicate 548 0" True "take 300 null_offer"]
    lists_drop_frames [of listed "0x0a000001" "replicate 548 0" True "take 300 null_offer"]
  by (simp add: listed_def plain_options_def matches_def)

text \<open>
  The claim C9 as stated fails for the interface \<open>listed\<close>: the source 10.0.0.1 matches
  its blacklist, and the frame is not dropped, because the source matches its whitelist.
\<close>

theorem blacklist_skipped_when_whitelisted:
  "matches (blacklist (ioptions listed)) 0x0a000001 \<and>
   \<not> dropped (receive_frame listed (replicate 548 0) True 0x0a000001 (take 300 null_offer))"
  by code_simp

text \<open>
  C4 (amended). For every inbound frame that passes the UDP validation, the whitelist
  and blacklist checks and the size check, and whose xid and chaddr match the interface,
  the dispatcher hands the message to \<^verbatim>\<open>dhcp_handle\<close> when its cookie is the magic cookie,
  and drops it as a bogus cookie otherwise. A message whose lookup of the message type
  (option 53) fails is handled by \<^verbatim>\<open>dhcp_handle\<close> as the message type 0, a BOOTP reply.
\<close>

theorem frame_needs_cookie:
  assumes "valid" "whitelisted_ip (ioptions ifp) from \<noteq> 0"
    "whitelisted_ip (ioptions ifp) from = 1 \<or> blacklisted_ip (ioptions ifp) from \<noteq> 1"
    "length payload \<le> length buf"
    "xid (istate ifp) = be32 (field (frame_message buf payload) XID_OFF 4)"
    "hwlen ifp \<le> CHADDR_LEN"
    "take (hwlen ifp) (field (frame_message buf payload) CHADDR_OFF CHADDR_LEN)
       = take (hwlen ifp) (hwaddr ifp)"
  shows "receive_frame ifp buf valid from payload =
           (if be32 (field (frame_message buf payload) COOKIE_OFF 4) = MAGIC_COOKIE
            then Handle (frame_message buf payload) else Bogus_cookie) \<and>
         (\<forall>m e. get_option_uint8 m DHO_MESSAGETYPE = Some (Fail e) \<longrightarrow>
            message_type m = Some (Ok 0))"
  using assms by (auto simp: receive_frame_def Let_def message_type_def)

lemma null_offer_no_type: "get_option_uint8 (mk_message reply_header [] [] [0xff]) DHO_MESSAGETYPE = Some (Fail EINVAL)"
  by code_simp

theorem frame_needs_cookie_witness:
  "receive_frame discovering (replicate 548 0) True 0x0a000001 (take 300 null_offer)
     = Handle (frame_message (replicate 548 0) (take 300 null_offer)) \<and>
   message_type (mk_message reply_header [] [] [0xff]) = Some (Ok 0)"
proof -
  have c: "be32 (field (frame_message (replicate 548 0) (take 300 null_offer)) COOKIE_OFF 4)
      = MAGIC_COOKIE"
    by code_simp
  have h: "whitelisted_ip (ioptions discovering) 0x0a000001 \<noteq> 0"
    "whitelisted_ip (ioptions discovering) 0x0a000001 = 1
      \<or> blacklisted_ip (ioptions discovering) 0x0a000001 \<noteq> 1"
    "length (take 300 null_offer) \<le> length (replicate 548 (0 :: u8))"
    "xid (istate discovering)
      = be32 (field (frame_message (replicate 548 0) (take 300 null_offer)) XID_OFF 4)"
    "hwlen discovering \<le> CHADDR_LEN"
    "take (hwlen discovering)
       (field (frame_message (replicate 548 0) (take 300 null_offer)) CHADDR_OFF CHADDR_LEN)
       = take (hwlen discovering) (hwaddr discovering)"
    by code_simp+
  show ?thesis
    using frame_needs_cookie [OF TrueI h] c null_offer_no_type by simp
qed

text \<open>
  The claim C4 as stated fails for \<open>bootp_reply\<close>, a plain BOOTP reply without the
  cookie that passes the lists and the size check and has the xid and the hardware
  address of the interface: the dispatcher drops it as a bogus cookie.
\<close>

theorem bootp_reply_dropped:
  "whitelisted_ip (ioptions discovering) 0x0a000001 = - 1 \<and>
   blacklisted_ip (ioptions discovering) 0x0a000001 = 0 \<and>
   length bootp_reply \<le> length (replicate 548 (0 :: u8)) \<and>
   xid (istate discovering)
     = be32 (field (frame_message (replicate 548 0) bootp_reply) XID_OFF 4) \<and>
   take (hwlen discovering)
       (field (frame_message (replicate 548 0) bootp_reply) CHADDR_OFF CHADDR_LEN)
     = take (hwlen discovering) (hwaddr discovering) \<and>
   receive_frame discovering (replicate 548 0) True 0x0a000001 bootp_reply = Bogus_cookie"
  by code_simp

subsection \<open>dhcp_handle: rejected messages\<close>

lemma message_type_scan:
  assumes "message_type dhcp = Some (Ok ty)"
  shows "\<exists>r. get_option dhcp DHO_MESSAGETYPE = Some r \<and> r \<noteq> Overrun"
  using assms
  by (auto simp: message_type_def get_option_uint8_def get_option_fixed_def map_res_def
      split: option.splits res.splits)

lemma lookups_return:
  assumes "message_type dhcp = Some (Ok ty)"
  shows "get_option_uint8 dhcp c \<noteq> None" "get_option_addr dhcp c \<noteq> None"
proof -
  from message_type_scan [OF assms] obtain r where
    "get_option dhcp DHO_MESSAGETYPE = Some r" "r \<noteq> Overrun" by blast
  then have "get_option dhcp c \<noteq> None" by (rule get_option_returns_any)
  then show "get_option_uint8 dhcp c \<noteq> None" "get_option_addr dhcp c \<noteq> None"
    by (auto simp: get_option_uint8_def get_option_addr_def get_option_fixed_def
        split: option.splits res.splits)
qed

lemma required_options_returns:
  assumes "message_type dhcp = Some (Ok ty')"
  shows "required_options req dhcp ty codes \<noteq> None"
proof (induction codes)
  case Nil
  show ?case by simp
next
  case (Cons i codes)
  then show ?case
    using lookups_return(1) [OF assms, of "of_nat i"]
    by (auto split: option.splits res.splits)
qed

lemma required_options_none:
  "(\<And>c. \<not> req c) \<Longrightarrow> required_options req dhcp ty codes = Some Passed"
  by (induction codes) auto

lemma dhcp_handle_invalid_address:
  assumes mt: "message_type dhcp = Some (Ok ty)"
    and ty: "ty = 0 \<or> ty = DHCP_OFFER \<or> ty = DHCP_ACK"
    and inv: "invalid_address dhcp"
  shows "dhcp_handle test ha ifp dhcp =
     (case required_options (requiremask (ioptions ifp)) dhcp ty [1..<255] of
        None \<Rightarrow> None
      | Some Check_overrun \<Rightarrow> Some Undefined
      | Some Rejected \<Rightarrow> Some (Returns (rejected ifp ''reject DHCP''))
      | Some Passed \<Rightarrow> Some (Returns (rejected ifp ''reject invalid address'')))"
proof -
  have n: "ty \<noteq> DHCP_NAK"
    using ty by (auto simp: DHCP_NAK_def DHCP_OFFER_def DHCP_ACK_def)
  show ?thesis
    using mt ty inv n
    by (simp add: dhcp_handle_def Let_def rejected_def log_dhcp_def emit_def
        split: option.splits check.splits)
qed

text \<open>
  C10 (amended). For every inbound message of type OFFER, ACK or BOOTP (type 0) in which
  ciaddr is 0.0.0.0 or 255.255.255.255 and yiaddr is 0.0.0.0 or 255.255.255.255,
  \<^verbatim>\<open>dhcp_handle\<close> returns, and unless a lookup of a required option has read outside of
  the message, it has rejected the message: the interface is as before but for the
  retransmission interval, reset to 0, and a line in the log. So no offer is recorded,
  no state transition occurs, no timer is altered and \<^verbatim>\<open>nakoff\<close> is not reset.
\<close>

theorem dhcp_handle_rejects_invalid_address:
  assumes "message_type dhcp = Some (Ok ty)"
    and "ty = 0 \<or> ty = DHCP_OFFER \<or> ty = DHCP_ACK"
    and "invalid_address dhcp"
  shows "\<exists>out. dhcp_handle test ha ifp dhcp = Some out \<and>
           (out = Undefined \<and>
              required_options (requiremask (ioptions ifp)) dhcp ty [1..<255]
                = Some Check_overrun
            \<or> out = Returns (rejected ifp ''reject DHCP'')
            \<or> out = Returns (rejected ifp ''reject invalid address''))"
proof -
  have "required_options (requiremask (ioptions ifp)) dhcp ty [1..<255] \<noteq> None"
    using assms(1) by (rule required_options_returns)
  then show ?thesis
    unfolding dhcp_handle_invalid_address [OF assms]
    by (auto split: check.splits)
qed

lemma null_offer_type: "message_type null_offer = Some (Ok DHCP_OFFER)"
  by code_simp

lemma null_offer_invalid: "invalid_address null_offer"
  by code_simp

lemma discovering_requires_nothing: "\<not> requiremask (ioptions discovering) c"
  by (simp add: discovering_def plain_options_def)

lemma null_offer_rejected:
  "dhcp_handle False no_address discovering null_offer
     = Some (Returns (rejected discovering ''reject invalid address''))"
  using dhcp_handle_invalid_address [OF null_offer_type _ null_offer_invalid,
      of False no_address discovering]
  by (simp add: required_options_none [OF discovering_requires_nothing])

theorem dhcp_handle_rejects_invalid_address_witness:
  "\<exists>out. dhcp_handle False no_address discovering null_offer = Some out \<and>
     (out = Undefined \<and>
        required_options (requiremask (ioptions discovering)) null_offer DHCP_OFFER [1..<255]
          = Some Check_overrun
      \<or> out = Returns (rejected discovering ''reject DHCP'')
      \<or> out = Returns (rejected discovering ''reject invalid address''))"
  using dhcp_handle_rejects_invalid_address [OF null_offer_type _ null_offer_invalid,
      of False no_address discovering]
  by simp

text \<open>
  The claim C10 as stated fails for \<open>null_offer\<close>: the rejection changes the state, since
  the interval of the interface, 8 before, is 0 after.
\<close>

theorem null_offer_resets_interval:
  "message_type null_offer = Some (Ok DHCP_OFFER) \<and> invalid_address null_offer \<and>
   interval (istate discovering) = 8 \<and>
   dhcp_handle False no_address discovering null_offer
     = Some (Returns (rejected discovering ''reject invalid address'')) \<and>
   interval (istate (rejected discovering ''reject invalid address'')) = 0"
  using null_offer_type null_offer_invalid null_offer_rejected
  by (simp add: rejected_def discovering_def)

subsection \<open>dhcp_handle: the NAK backoff\<close>

lemma restart_delays_append:
  "restart_delays (xs @ ys) = restart_delays xs @ restart_delays ys"
  by (induction xs rule: restart_delays.induct) auto

lemma dhcp_close_fields:
  "istate (dhcp_close i) = istate i" "ioptions (dhcp_close i) = ioptions i"
  "restart_delays (events (dhcp_close i)) = restart_delays (events i)"
  by (auto simp: dhcp_close_def emit_def Let_def restart_delays_append)

lemma dhcp_drop_fields:
  "nakoff (istate (dhcp_drop i r)) = nakoff (istate i)"
  "ioptions (dhcp_drop i r) = ioptions i"
  "restart_delays (events (dhcp_drop i r)) = restart_delays (events i)"
  by (auto simp: dhcp_drop_def emit_def Let_def restart_delays_append)

lemma nak_restart_fields:
  "nakoff (istate (nak_restart test i)) = nak_next (nakoff (istate i))"
  "ioptions (nak_restart test i) = ioptions i"
  "restart_delays (events (nak_restart test i))
     = restart_delays (events i) @ [nakoff (istate i)]"
  by (auto simp: nak_restart_def nak_next_def Let_def emit_def log_dhcp_def
      dhcp_close_fields dhcp_drop_fields restart_delays_append)

lemma dhcp_handle_accepted_nak:
  assumes "accepted_nak (ioptions ifp) dhcp"
  shows "dhcp_handle test ha ifp dhcp
     = Some (Returns (nak_restart test (ifp\<lparr>istate := (istate ifp)\<lparr>interval := 0\<rparr>\<rparr>)))"
  using assms
  by (auto simp: accepted_nak_def dhcp_handle_def dhcp_handle_nak_def Let_def
      split: option.splits res.splits)

lemma nak_next_delay: "nak_next (nak_delay k) = nak_delay (Suc k)"
proof (cases k)
  case 0
  then show ?thesis by (simp add: nak_next_def nak_delay_def)
next
  case (Suc j)
  have p: "(0 :: int) < 2 ^ j" by simp
  show ?thesis
    using p unfolding Suc
    by (auto simp: nak_next_def nak_delay_def NAKOFF_MAX_def Let_def min_def)
qed

lemma dhcp_handle_all_naks:
  assumes "\<forall>m \<in> set ms. accepted_nak (ioptions ifp) m" "nakoff (istate ifp) = nak_delay k"
  shows "\<exists>ifp'. dhcp_handle_all test ha ifp ms = Some (Returns ifp') \<and>
           restart_delays (events ifp')
             = restart_delays (events ifp) @ map nak_delay [k..<k + length ms] \<and>
           nakoff (istate ifp') = nak_delay (k + length ms)"
  using assms
proof (induction ms arbitrary: ifp k)
  case Nil
  then show ?case by simp
next
  case (Cons m ms)
  let ?i = "nak_restart test (ifp\<lparr>istate := (istate ifp)\<lparr>interval := 0\<rparr>\<rparr>)"
  have h: "dhcp_handle test ha ifp m = Some (Returns ?i)"
    using Cons.prems by (intro dhcp_handle_accepted_nak) simp
  have f: "ioptions ?i = ioptions ifp" "nakoff (istate ?i) = nak_delay (Suc k)"
    "restart_delays (events ?i) = restart_delays (events ifp) @ [nak_delay k]"
    using Cons.prems(2) by (simp_all add: nak_restart_fields nak_next_delay)
  have "\<exists>ifp'. dhcp_handle_all test ha ?i ms = Some (Returns ifp') \<and>
           restart_delays (events ifp')
             = restart_delays (events ?i) @ map nak_delay [Suc k..<Suc k + length ms] \<and>
           nakoff (istate ifp') = nak_delay (Suc k + length ms)"
    using Cons.prems f by (intro Cons.IH) simp_all
  then obtain ifp' where i': "dhcp_handle_all test ha ?i ms = Some (Returns ifp')"
    "restart_delays (events ifp')
       = restart_delays (events ?i) @ map nak_delay [Suc k..<Suc k + length ms]"
    "nakoff (istate ifp') = nak_delay (Suc k + length ms)"
    by blast
  have u: "[k..<k + length (m # ms)] = k # [Suc k..<Suc k + length ms]"
    by (simp add: upt_rec)
  show ?case
    using h i' f(3) unfolding u by simp
qed

lemma nak_delay_values:
  "map nak_delay [0..<9] = [0, 1, 2, 4, 8, 16, 32, 60, 60]"
  by (simp add: nak_delay_def upt_rec)

lemma nak_delay_capped: "7 \<le> k \<Longrightarrow> nak_delay k = 60"
proof -
  assume "7 \<le> k"
  then have "(2 :: int) ^ 6 \<le> 2 ^ (k - 1)"
    by (intro power_increasing) simp_all
  then show ?thesis using \<open>7 \<le> k\<close> by (simp add: nak_delay_def min_def)
qed

lemma dhcp_handle_valid_nakoff:
  assumes "dhcp_handle_valid test ha ifp dhcp ty = Some out" "outcome_interface out = Some i"
  shows "nakoff (istate i) = 0"
  using assms
  by (auto simp: dhcp_handle_valid_def dhcp_handle_offer_def dhcp_handle_ack_def Let_def
      log_dhcp_def emit_def dhcp_close_fields
      split: if_splits option.splits res.splits)

lemma dhcp_handle_passed:
  assumes "message_type dhcp = Some (Ok ty)" "ty \<noteq> DHCP_NAK"
    "required_options (requiremask (ioptions ifp)) dhcp ty [1..<255] = Some Passed"
    "\<not> ((ty = 0 \<or> ty = DHCP_OFFER \<or> ty = DHCP_ACK) \<and> invalid_address dhcp)"
  shows "dhcp_handle test ha ifp dhcp
     = dhcp_handle_valid test ha (ifp\<lparr>istate := (istate ifp)\<lparr>interval := 0\<rparr>\<rparr>) dhcp ty"
  using assms by (auto simp: dhcp_handle_def Let_def)

lemma dhcp_handle_valid_returns:
  assumes "message_type dhcp = Some (Ok ty')"
  shows "dhcp_handle_valid test ha ifp dhcp ty \<noteq> None"
  using lookups_return(2) [OF assms, of DHO_SERVERID]
  by (auto simp: dhcp_handle_valid_def Let_def split: option.splits res.splits)

text \<open>
  C5 (amended). For every sequence of consecutive NAKs that \<^verbatim>\<open>dhcp_handle\<close> does not reject
  for a missing required Server-ID, handled from \<^verbatim>\<open>nakoff\<close> 0, the delays of the restarts
  scheduled are exactly 0, 1, 2, 4, 8, 16, 32, 60, 60, ... seconds, and \<^verbatim>\<open>nakoff\<close> is the
  next of them. Handling a message that is not a NAK and that passes the check of the
  required options and the check of the offered address resets \<^verbatim>\<open>nakoff\<close> to 0.
\<close>

theorem nak_backoff:
  "(nakoff (istate ifp) = 0 \<and> (\<forall>m \<in> set ms. accepted_nak (ioptions ifp) m) \<longrightarrow>
      (\<exists>ifp'. dhcp_handle_all test ha ifp ms = Some (Returns ifp') \<and>
         restart_delays (events ifp')
           = restart_delays (events ifp) @ map nak_delay [0..<length ms] \<and>
         nakoff (istate ifp') = nak_delay (length ms))) \<and>
   map nak_delay [0..<9] = [0, 1, 2, 4, 8, 16, 32, 60, 60] \<and>
   (\<forall>k \<ge> 7. nak_delay k = 60) \<and>
   (message_type dhcp = Some (Ok ty) \<and> ty \<noteq> DHCP_NAK \<and>
    required_options (requiremask (ioptions ifp)) dhcp ty [1..<255] = Some Passed \<and>
    \<not> ((ty = 0 \<or> ty = DHCP_OFFER \<or> ty = DHCP_ACK) \<and> invalid_address dhcp) \<longrightarrow>
      (\<exists>out. dhcp_handle test ha ifp dhcp = Some out \<and>
         (out = Undefined \<or>
          (\<exists>i. outcome_interface out = Some i \<and> nakoff (istate i) = 0))))"
proof (intro conjI impI)
  assume "nakoff (istate ifp) = 0 \<and> (\<forall>m \<in> set ms. accepted_nak (ioptions ifp) m)"
  then show "\<exists>ifp'. dhcp_handle_all test ha ifp ms = Some (Returns ifp') \<and>
         restart_delays (events ifp')
           = restart_delays (events ifp) @ map nak_delay [0..<length ms] \<and>
         nakoff (istate ifp') = nak_delay (length ms)"
    using dhcp_handle_all_naks [of ms ifp 0 test ha] by (simp add: nak_delay_def)
next
  show "map nak_delay [0..<9] = [0, 1, 2, 4, 8, 16, 32, 60, 60]"
    by (rule nak_delay_values)
next
  show "\<forall>k \<ge> 7. nak_delay k = 60"
    using nak_delay_capped by blast
next
  assume h: "message_type dhcp = Some (Ok ty) \<and> ty \<noteq> DHCP_NAK \<and>
    required_options (requiremask (ioptions ifp)) dhcp ty [1..<255] = Some Passed \<and>
    \<not> ((ty = 0 \<or> ty = DHCP_OFFER \<or> ty = DHCP_ACK) \<and> invalid_address dhcp)"
  let ?i = "ifp\<lparr>istate := (istate ifp)\<lparr>interval := 0\<rparr>\<rparr>"
  have e: "dhcp_handle test ha ifp dhcp = dhcp_handle_valid test ha ?i dhcp ty"
    using h by (intro dhcp_handle_passed) simp_all
  have "dhcp_handle_valid test ha ?i dhcp ty \<noteq> None"
    using h by (intro dhcp_handle_valid_returns [of dhcp ty]) simp
  then obtain out where out: "dhcp_handle_valid test ha ?i dhcp ty = Some out" by auto
  have "out = Undefined \<or> (\<exists>i. outcome_interface out = Some i \<and> nakoff (istate i) = 0)"
  proof (cases out)
    case Undefined
    then show ?thesis by simp
  next
    case (Returns i)
    with dhcp_handle_valid_nakoff [OF out, of i] show ?thesis by simp
  next
    case (Calls f i)
    with dhcp_handle_valid_nakoff [OF out, of i] show ?thesis by simp
  next
    case (Exits i)
    with dhcp_handle_valid_nakoff [OF out, of i] show ?thesis by simp
  qed
  with e out show "\<exists>out. dhcp_handle test ha ifp dhcp = Some out \<and>
         (out = Undefined \<or>
          (\<exists>i. outcome_interface out = Some i \<and> nakoff (istate i) = 0))"
    by simp
qed

lemma nak_msg_type: "message_type nak_msg = Some (Ok DHCP_NAK)"
  by code_simp

lemma offer_msg_type: "message_type offer_msg = Some (Ok DHCP_OFFER)"
  by code_simp

lemma offer_msg_valid: "\<not> invalid_address offer_msg"
  by code_simp

theorem nak_backoff_witness:
  "(\<exists>ifp'. dhcp_handle_all False no_address fresh [nak_msg, nak_msg, nak_msg, nak_msg]
       = Some (Returns ifp') \<and>
     restart_delays (events ifp') = [0, 1, 2, 4] \<and> nakoff (istate ifp') = 8) \<and>
   (\<exists>out. dhcp_handle False no_address discovering offer_msg = Some out \<and>
      (out = Undefined \<or> (\<exists>i. outcome_interface out = Some i \<and> nakoff (istate i) = 0))) \<and>
   nak_delay 8 = 60"
proof -
  have a: "nakoff (istate fresh) = 0" "restart_delays (events fresh) = []"
    "\<forall>m \<in> set [nak_msg, nak_msg, nak_msg, nak_msg]. accepted_nak (ioptions fresh) m"
    by (simp_all add: fresh_def discovering_def plain_options_def accepted_nak_def
        nak_msg_type)
  have d: "map nak_delay [0..<length [nak_msg, nak_msg, nak_msg, nak_msg]] = [0, 1, 2, 4]"
    "nak_delay (length [nak_msg, nak_msg, nak_msg, nak_msg]) = 8"
    by (simp_all add: nak_delay_def upt_rec)
  have p: "required_options (requiremask (ioptions discovering)) offer_msg DHCP_OFFER [1..<255]
      = Some Passed"
    by (rule required_options_none) (simp add: discovering_def plain_options_def)
  have n: "DHCP_OFFER \<noteq> DHCP_NAK" by (simp add: DHCP_OFFER_def DHCP_NAK_def)
  note t1 = nak_backoff [of fresh "[nak_msg, nak_msg, nak_msg, nak_msg]" False no_address
      offer_msg DHCP_OFFER]
  note t2 = nak_backoff [of discovering "[]" False no_address offer_msg DHCP_OFFER]
  have 1: "\<exists>ifp'. dhcp_handle_all False no_address fresh [nak_msg, nak_msg, nak_msg, nak_msg]
       = Some (Returns ifp') \<and>
     restart_delays (events ifp') = [0, 1, 2, 4] \<and> nakoff (istate ifp') = 8"
    using t1 a d by (simp del: dhcp_handle_all.simps)
  have 2: "\<exists>out. dhcp_handle False no_address discovering offer_msg = Some out \<and>
      (out = Undefined \<or> (\<exists>i. outcome_interface out = Some i \<and> nakoff (istate i) = 0))"
    using t2 offer_msg_type offer_msg_valid p n by simp
  have 3: "nak_delay 8 = 60"
    using t1 by simp
  from 1 2 3 show ?thesis by simp
qed

text \<open>
  The claim C5 as stated fails for \<open>null_offer\<close>: it is not a NAK, and handling it leaves
  \<^verbatim>\<open>nakoff\<close> at 4.
\<close>

theorem null_offer_keeps_nakoff:
  "message_type null_offer = Some (Ok DHCP_OFFER) \<and>
   nakoff (istate discovering) = 4 \<and>
   dhcp_handle False no_address discovering null_offer
     = Some (Returns (rejected discovering ''reject invalid address'')) \<and>
   nakoff (istate (rejected discovering ''reject invalid address'')) = 4"
  using null_offer_type null_offer_rejected
  by (simp add: rejected_def discovering_def)

subsection \<open>send_message: the retransmission interval\<close>

lemma next_interval_send: "next_interval (if n = 0 then 0 else send_interval n) = send_interval (Suc n)"
proof (cases n)
  case 0
  then show ?thesis by (simp add: next_interval_def send_interval_def)
next
  case (Suc j)
  have p: "(0 :: int) < 2 ^ j" by simp
  show ?thesis
    using p unfolding Suc
    by (auto simp: next_interval_def send_interval_def Let_def min_def)
qed

lemma send_delay_range:
  assumes "rand_min_u = rand_min * 1000000" "rand_max_u = rand_max * 1000000"
    "rand_min < rand_max"
  shows "(i + rand_min) * 1000000 \<le> send_delay rand_min rand_min_u rand_max_u i r"
    "send_delay rand_min rand_min_u rand_max_u i r \<le> (i + rand_max) * 1000000"
proof -
  define d where "d = rand_max_u - rand_min_u"
  define x where "x = uint r mod d"
  have d: "0 < d" "rand_max * 1000000 = rand_min * 1000000 + d"
    using assms by (simp_all add: d_def)
  have x: "0 \<le> x" "x < d"
    using d(1) by (simp_all add: x_def)
  have s: "send_delay rand_min rand_min_u rand_max_u i r = (i + rand_min) * 1000000 + x"
    by (simp add: send_delay_def x_def d_def)
  show "(i + rand_min) * 1000000 \<le> send_delay rand_min rand_min_u rand_max_u i r"
    unfolding s using x by simp
  have "(i + rand_max) * 1000000 = (i + rand_min) * 1000000 + d"
    using d(2) by (simp add: algebra_simps)
  then show "send_delay rand_min rand_min_u rand_max_u i r \<le> (i + rand_max) * 1000000"
    unfolding s using x by simp
qed

lemma send_message_jittered:
  assumes "rand_min_u = rand_min * 1000000" "rand_max_u = rand_max * 1000000"
    "rand_min < rand_max"
  shows "jittered rand_min rand_max (next_interval i)
           (send_message rand_min rand_min_u rand_max_u io r i (Some f))"
  using send_delay_range [OF assms, of "next_interval i" r]
  by (cases io) (simp_all add: jittered_def send_message_def Let_def)

lemma send_run_jittered:
  assumes "rand_min_u = rand_min * 1000000" "rand_max_u = rand_max * 1000000"
    "rand_min < rand_max" "i = (if n = 0 then 0 else send_interval n)"
  shows "length (send_run rand_min rand_min_u rand_max_u f i ins) = length ins \<and>
         (\<forall>k < length ins.
            jittered rand_min rand_max (send_interval (n + k + 1))
              (send_run rand_min rand_min_u rand_max_u f i ins ! k))"
  using assms(4)
proof (induction ins arbitrary: i n)
  case Nil
  show ?case by simp
next
  case (Cons a ins)
  obtain io r where a: "a = (io, r)" by (cases a)
  let ?res = "send_message rand_min rand_min_u rand_max_u io r i (Some f)"
  have j: "jittered rand_min rand_max (send_interval (Suc n)) ?res"
    using send_message_jittered [OF assms(1,2,3), of i io r f] Cons.prems
    by (simp add: next_interval_send)
  then have f: "fst ?res = (if Suc n = 0 then 0 else send_interval (Suc n))"
    by (simp add: jittered_def)
  note IH = Cons.IH [OF f]
  show ?case
  proof (intro conjI allI impI)
    show "length (send_run rand_min rand_min_u rand_max_u f i (a # ins)) = length (a # ins)"
      using IH by (simp add: a Let_def)
  next
    fix k assume k: "k < length (a # ins)"
    show "jittered rand_min rand_max (send_interval (n + k + 1))
            (send_run rand_min rand_min_u rand_max_u f i (a # ins) ! k)"
    proof (cases k)
      case 0
      then show ?thesis using j by (simp add: a Let_def)
    next
      case (Suc k')
      then have "k' < length ins" using k by simp
      with IH have "jittered rand_min rand_max (send_interval (Suc n + k' + 1))
          (send_run rand_min rand_min_u rand_max_u f (fst ?res) ins ! k')" by simp
      then show ?thesis using Suc by (simp add: a Let_def)
    qed
  qed
qed

lemma send_interval_values: "map send_interval [1..<8] = [4, 8, 16, 32, 64, 64, 64]"
  by (simp add: send_interval_def upt_rec)

lemma send_interval_capped: "5 \<le> n \<Longrightarrow> send_interval n = 64"
proof -
  assume n: "5 \<le> n"
  then have "(2 :: int) ^ 4 \<le> 2 ^ (n - 1)"
    by (intro power_increasing) simp_all
  then show ?thesis by (simp add: send_interval_def min_def)
qed

text \<open>
  C6. For every run of retransmitted sends from the interval 0, whatever each send meets,
  the \<open>k\<close>-th send sets the interval to the \<open>k\<close>-th of 4, 8, 16, 32, 64, 64, ... seconds,
  and the delay of the timeout it registers, if it registers one, is that interval plus
  a jitter between DHCP_RAND_MIN and DHCP_RAND_MAX seconds, provided that the macros
  DHCP_RAND_MIN_U and DHCP_RAND_MAX_U are these bounds in microseconds.
\<close>

theorem retransmit_intervals:
  assumes "rand_min_u = rand_min * 1000000" "rand_max_u = rand_max * 1000000"
    "rand_min < rand_max"
  shows "length (send_run rand_min rand_min_u rand_max_u f 0 ins) = length ins \<and>
         (\<forall>k < length ins.
            jittered rand_min rand_max (send_interval (k + 1))
              (send_run rand_min rand_min_u rand_max_u f 0 ins ! k)) \<and>
         map send_interval [1..<8] = [4, 8, 16, 32, 64, 64, 64] \<and>
         (\<forall>n \<ge> 5. send_interval n = 64)"
  using send_run_jittered [OF assms, of 0 0 f ins] send_interval_values send_interval_capped
  by simp

theorem retransmit_intervals_witness:
  "send_run (- 1) (- 1000000) 1000000 Send_discover 0
     [(Raw_sent, 0), (Raw_sent, 1500000), (Raw_sent, 4293967295), (Unicast_sent, 7),
      (Raw_sent, 0), (Raw_sent, 0), (Raw_fails, 0)]
   = [(4, Some (3000000, Send_discover)), (8, Some (8500000, Send_discover)),
      (16, Some (16967295, Send_discover)), (32, Some (31000007, Send_discover)),
      (64, Some (63000000, Send_discover)), (64, Some (63000000, Send_discover)),
      (64, None)] \<and>
   jittered (- 1) 1 16 (16, Some (16967295, Send_discover))"
proof -
  let ?ins = "[(Raw_sent, 0), (Raw_sent, 1500000), (Raw_sent, 4293967295), (Unicast_sent, 7),
      (Raw_sent, 0), (Raw_sent, 0), (Raw_fails, 0 :: u32)]"
  have e: "send_run (- 1) (- 1000000) 1000000 Send_discover 0 ?ins
   = [(4, Some (3000000, Send_discover)), (8, Some (8500000, Send_discover)),
      (16, Some (16967295, Send_discover)), (32, Some (31000007, Send_discover)),
      (64, Some (63000000, Send_discover)), (64, Some (63000000, Send_discover)),
      (64, None)]"
    by code_simp
  have h: "(- 1000000 :: int) = - 1 * 1000000" "(1000000 :: int) = 1 * 1000000"
    "(- 1 :: int) < 1"
    by simp_all
  have "\<forall>k < length ?ins. jittered (- 1) 1 (send_interval (k + 1))
      (send_run (- 1) (- 1000000) 1000000 Send_discover 0 ?ins ! k)"
    using retransmit_intervals [OF h, of Send_discover ?ins] by blast
  from this [rule_format, of 2]
  have "jittered (- 1) 1 (send_interval (2 + 1))
      (send_run (- 1) (- 1000000) 1000000 Send_discover 0 ?ins ! 2)"
    by (simp del: send_run.simps)
  then have "jittered (- 1) 1 16 (16, Some (16967295, Send_discover))"
    unfolding e by (simp add: send_interval_def)
  with e show ?thesis by simp
qed

subsection \<open>dhcp_bind: the times of the lease\<close>

lemma unat_T1: "unat (T1_of lt) = unat lt div 2"
proof -
  have "unat lt < 2 ^ 32" using unsigned_less [of lt, where 'a = nat] by simp
  then have "unat lt div 2 < 2 ^ 32" by simp
  then show ?thesis by (simp add: T1_of_def unat_of_nat)
qed

lemma unat_T2: "unat (T2_of lt) = unat lt * 7 div 8"
proof -
  have "unat lt < 2 ^ 32" using unsigned_less [of lt, where 'a = nat] by simp
  then have "unat lt * 7 div 8 < 2 ^ 32" by simp
  then show ?thesis by (simp add: T2_of_def unat_of_nat)
qed

lemma bind_times_bounds:
  assumes "leasetime l \<noteq> INFINITE_LEASE"
  shows "leasetime (bind_times l) \<noteq> INFINITE_LEASE"
    "DHCP_MIN_LEASE \<le> leasetime (bind_times l)"
    "0 < renewaltime (bind_times l)" "renewaltime (bind_times l) < leasetime (bind_times l)"
    "0 < rebindtime (bind_times l)" "rebindtime (bind_times l) < leasetime (bind_times l)"
    "leasetime (bind_times l) = (if leasetime l < DHCP_MIN_LEASE then DHCP_MIN_LEASE else leasetime l)"
    "rebindtime (bind_times l) =
       (if rebindtime l = 0 \<or> rebindtime l \<ge> leasetime (bind_times l)
        then T2_of (leasetime (bind_times l)) else rebindtime l)"
    "renewaltime (bind_times l) =
       (if renewaltime l = 0 \<or> renewaltime l > rebindtime (bind_times l)
        then T1_of (leasetime (bind_times l)) else renewaltime l)"
  using assms
  by (auto simp: bind_times_def Let_def DHCP_MIN_LEASE_def INFINITE_LEASE_def
      word_less_nat_alt word_le_nat_alt unat_T1 unat_T2 unat_gt_0 [symmetric]
      split: if_splits)

subsection \<open>The lease read from a message\<close>

lemma lookup_Ok_iff:
  "(lookup r k = Some (Ok g)) =
     (r \<noteq> None \<and> r \<noteq> Some Overrun \<and>
      k (case r of Some (Ok v) \<Rightarrow> Some v | _ \<Rightarrow> None) = Some (Ok g))"
  by (auto simp: lookup_def split: option.splits res.splits)

lemma get_lease_times:
  assumes "get_lease get_netmask wraps l dhcp = Some (Ok g)"
  shows "leasetime g =
           (case supplied dhcp DHO_LEASETIME of
              Some v \<Rightarrow> if wraps v then INFINITE_LEASE else v
            | None \<Rightarrow> INFINITE_LEASE) \<and>
    renewaltime g = (case supplied dhcp DHO_RENEWALTIME of Some v \<Rightarrow> v | None \<Rightarrow> 0) \<and>
    rebindtime g = (case supplied dhcp DHO_REBINDTIME of Some v \<Rightarrow> v | None \<Rightarrow> 0)"
  using assms
  apply (simp add: get_lease_def Let_def lookup_Ok_iff supplied_def)
  apply (elim conjE)
  apply (drule sym)
  apply simp
  done

lemma dhcp_bind_lease_finite:
  assumes "leasetime (dhcp_bind_lease static req_mask cookie_ok inform req_addr if_addr l)
     \<noteq> INFINITE_LEASE"
  shows "leasetime l \<noteq> INFINITE_LEASE"
    "dhcp_bind_lease static req_mask cookie_ok inform req_addr if_addr l = bind_times l"
proof -
  show 1: "leasetime l \<noteq> INFINITE_LEASE"
    using assms
    by (auto simp: dhcp_bind_lease_def Let_def bind_times_def split: if_splits)
  have "leasetime (bind_times l) \<noteq> INFINITE_LEASE"
    using 1 by (rule bind_times_bounds(1))
  then show "dhcp_bind_lease static req_mask cookie_ok inform req_addr if_addr l = bind_times l"
    using assms by (auto simp: dhcp_bind_lease_def Let_def split: if_splits)
qed

lemma T1_less_T2:
  assumes "DHCP_MIN_LEASE \<le> lt"
  shows "T1_of lt < T2_of lt"
  using assms
  by (simp add: word_less_nat_alt word_le_nat_alt unat_T1 unat_T2 DHCP_MIN_LEASE_def)


lemma minimal_ack_lookups:
  "get_option_addr minimal_ack DHO_SUBNETMASK = Some (Ok 0xffffff00)"
  "get_option_addr minimal_ack DHO_BROADCAST = Some (Fail EINVAL)"
  "get_option_uint32 minimal_ack DHO_LEASETIME = Some (Ok 3600)"
  "get_option_uint32 minimal_ack DHO_RENEWALTIME = Some (Fail EINVAL)"
  "get_option_uint32 minimal_ack DHO_REBINDTIME = Some (Fail EINVAL)"
  "get_option_addr minimal_ack DHO_SERVERID = Some (Ok 0xc0a80101)"
  "be32 (field minimal_ack YIADDR_OFF 4) = 0xc0a80132"
  "be32 (field minimal_ack COOKIE_OFF 4) = 0x63825363"
  by code_simp+

lemma equal_times_ack_lookups:
  "get_option_addr equal_times_ack DHO_SUBNETMASK = Some (Fail EINVAL)"
  "get_option_addr equal_times_ack DHO_BROADCAST = Some (Fail EINVAL)"
  "get_option_uint32 equal_times_ack DHO_LEASETIME = Some (Ok 200)"
  "get_option_uint32 equal_times_ack DHO_RENEWALTIME = Some (Ok 100)"
  "get_option_uint32 equal_times_ack DHO_REBINDTIME = Some (Ok 100)"
  "get_option_addr equal_times_ack DHO_SERVERID = Some (Ok 0xc0a80101)"
  "be32 (field equal_times_ack YIADDR_OFF 4) = 0xc0a80132"
  "be32 (field equal_times_ack COOKIE_OFF 4) = 0x63825363"
  by code_simp+

lemma get_lease_minimal_ack:
  "get_lease class_netmask never_wraps no_lease minimal_ack = Some (Ok minimal_lease)"
  by (simp add: get_lease_def lookup_def minimal_ack_lookups no_lease_def minimal_lease_def
      never_wraps_def INADDR_ANY_def Let_def)

lemma get_lease_equal_times_ack:
  "get_lease class_netmask never_wraps no_lease equal_times_ack = Some (Ok equal_times_lease)"
  by (simp add: get_lease_def lookup_def equal_times_ack_lookups no_lease_def
      equal_times_lease_def never_wraps_def class_netmask_def INADDR_ANY_def Let_def)

text \<open>
  C2 (amended). For every lease that \<^verbatim>\<open>get_lease\<close> reads from a message and \<^verbatim>\<open>dhcp_bind\<close>
  adopts, and whose lease time is not infinite after it: the lease time is at least
  DHCP_MIN_LEASE, \<open>0 < renewaltime < leasetime\<close> and \<open>0 < rebindtime < leasetime\<close>; a
  missing or zero rebind time, or one that is not below the lease time, is replaced by
  \<open>leasetime * T2\<close>, and any other is kept; a missing or zero renewal time, or one above
  the rebind time, is replaced by \<open>leasetime * T1\<close>, and any other is kept;
  \<open>leasetime * T1 < leasetime * T2\<close>; and \<open>renewaltime \<le> rebindtime\<close> whenever the rebind
  time is at least \<open>leasetime * T1\<close>.
\<close>

theorem bind_lease_times:
  assumes "get_lease get_netmask wraps l dhcp = Some (Ok g)"
    and "l' = dhcp_bind_lease static req_mask cookie_ok inform req_addr if_addr g"
    and "leasetime l' \<noteq> INFINITE_LEASE"
    and "rn = supplied dhcp DHO_RENEWALTIME"
    and "rb = supplied dhcp DHO_REBINDTIME"
  shows "DHCP_MIN_LEASE \<le> leasetime l' \<and>
         0 < renewaltime l' \<and> renewaltime l' < leasetime l' \<and>
         0 < rebindtime l' \<and> rebindtime l' < leasetime l' \<and>
         (rb = None \<or> rb = Some 0 \<or> (\<exists>v. rb = Some v \<and> v \<ge> leasetime l')
            \<longrightarrow> rebindtime l' = T2_of (leasetime l')) \<and>
         (rn = None \<or> rn = Some 0 \<or> (\<exists>v. rn = Some v \<and> v > rebindtime l')
            \<longrightarrow> renewaltime l' = T1_of (leasetime l')) \<and>
         (\<forall>v. rb = Some v \<and> v \<noteq> 0 \<and> v < leasetime l' \<longrightarrow> rebindtime l' = v) \<and>
         (\<forall>v. rn = Some v \<and> v \<noteq> 0 \<and> v \<le> rebindtime l' \<longrightarrow> renewaltime l' = v) \<and>
         unat (T1_of (leasetime l')) = unat (leasetime l') div 2 \<and>
         unat (T2_of (leasetime l')) = unat (leasetime l') * 7 div 8 \<and>
         T1_of (leasetime l') < T2_of (leasetime l') \<and>
         (T1_of (leasetime l') \<le> rebindtime l' \<longrightarrow> renewaltime l' \<le> rebindtime l')"
proof -
  have f: "leasetime g \<noteq> INFINITE_LEASE" "l' = bind_times g"
    using dhcp_bind_lease_finite [of static req_mask cookie_ok inform req_addr if_addr g]
      assms(2,3)
    by simp_all
  note b = bind_times_bounds [OF f(1), folded f(2)]
  have rn: "renewaltime g = (case rn of Some v \<Rightarrow> v | None \<Rightarrow> 0)"
    and rb: "rebindtime g = (case rb of Some v \<Rightarrow> v | None \<Rightarrow> 0)"
    using get_lease_times [OF assms(1)] assms(4,5) by simp_all
  have 1: "DHCP_MIN_LEASE \<le> leasetime l'" by (rule b(2))
  have 2: "rb = None \<or> rb = Some 0 \<or> (\<exists>v. rb = Some v \<and> v \<ge> leasetime l')
            \<longrightarrow> rebindtime l' = T2_of (leasetime l')"
    using b(8) rb by auto
  have 3: "rn = None \<or> rn = Some 0 \<or> (\<exists>v. rn = Some v \<and> v > rebindtime l')
            \<longrightarrow> renewaltime l' = T1_of (leasetime l')"
    using b(9) rn by auto
  have 4: "\<forall>v. rb = Some v \<and> v \<noteq> 0 \<and> v < leasetime l' \<longrightarrow> rebindtime l' = v"
    using b(8) rb by auto
  have 5: "\<forall>v. rn = Some v \<and> v \<noteq> 0 \<and> v \<le> rebindtime l' \<longrightarrow> renewaltime l' = v"
    using b(9) rn by auto
  have 6: "T1_of (leasetime l') < T2_of (leasetime l')"
    using 1 by (rule T1_less_T2)
  have 7: "T1_of (leasetime l') \<le> rebindtime l' \<longrightarrow> renewaltime l' \<le> rebindtime l'"
    using b(9) by (auto split: if_splits)
  show ?thesis
    by (intro conjI 1 b(3,4,5,6) 2 3 4 5 6 7 unat_T1 unat_T2)
qed

theorem bind_lease_times_witness:
  "get_lease class_netmask never_wraps no_lease minimal_ack = Some (Ok minimal_lease) \<and>
   supplied minimal_ack DHO_RENEWALTIME = None \<and>
   supplied minimal_ack DHO_REBINDTIME = None \<and>
   leasetime (dhcp_bind_lease False 0 True False 0 0 minimal_lease) = 3600 \<and>
   renewaltime (dhcp_bind_lease False 0 True False 0 0 minimal_lease) = 1800 \<and>
   rebindtime (dhcp_bind_lease False 0 True False 0 0 minimal_lease) = 3150"
proof -
  define l' where "l' = dhcp_bind_lease False 0 True False 0 0 minimal_lease"
  have lt: "leasetime l' = 3600"
    unfolding l'_def
    by (simp add: dhcp_bind_lease_def bind_times_def minimal_lease_def
        INFINITE_LEASE_def DHCP_MIN_LEASE_def T1_of_def T2_of_def Let_def)
  then have fin: "leasetime l' \<noteq> INFINITE_LEASE"
    by (simp add: INFINITE_LEASE_def)
  have s: "supplied minimal_ack DHO_RENEWALTIME = None"
    "supplied minimal_ack DHO_REBINDTIME = None"
    by (simp_all add: supplied_def minimal_ack_lookups)
  note t = bind_lease_times [OF get_lease_minimal_ack l'_def fin s(1) [symmetric]
      s(2) [symmetric]]
  have "rebindtime l' = T2_of (leasetime l')" "renewaltime l' = T1_of (leasetime l')"
    using t by simp_all
  moreover have "T2_of 3600 = 3150" "T1_of 3600 = 1800"
    by (simp_all add: T2_of_def T1_of_def)
  ultimately show ?thesis
    using lt s get_lease_minimal_ack unfolding l'_def by simp
qed

text \<open>
  The claim C2 as stated fails for an ACK with a lease time of 200 seconds and a renewal
  time and a rebind time of 100 seconds both: \<^verbatim>\<open>dhcp_bind\<close> keeps them, so that the
  renewal time is not below the rebind time.
\<close>

theorem bind_equal_renewal_rebind:
  "get_lease class_netmask never_wraps no_lease equal_times_ack
     = Some (Ok equal_times_lease) \<and>
   leasetime (dhcp_bind_lease False 0 True False 0 0 equal_times_lease) = 200 \<and>
   renewaltime (dhcp_bind_lease False 0 True False 0 0 equal_times_lease) = 100 \<and>
   rebindtime (dhcp_bind_lease False 0 True False 0 0 equal_times_lease) = 100"
  by (simp add: get_lease_equal_times_ack dhcp_bind_lease_def bind_times_def
      equal_times_lease_def INFINITE_LEASE_def DHCP_MIN_LEASE_def Let_def)

end
